theory Spec2Isabelle
  imports Main "HOL-Library.Word" "HOL-Library.Multiset"
begin

section \<open>cyclops-go: the ingestion handler of \<open>api/api.go\<close>\<close>

text \<open>
  The package \<open>api\<close> holds one handler, \<open>apiHandler\<close>, and its helpers
  \<open>validateCache\<close>, \<open>processRequest\<close>, \<open>getSentryKeyAndSecret\<close> and
  \<open>getRequestBody\<close>. Each is translated below under its own name. Mutation of the
  \<open>Api\<close> struct, of the cache behind it and of the response writer is explicit state
  passing; a Go result \<open>(v, err)\<close> is the pair \<open>(v, e)\<close> with \<open>e = None\<close> for
  \<open>nil\<close>, because the handler keeps using \<open>v\<close> at several places where it drops or
  only logs \<open>err\<close>.
\<close>

subsection \<open>Values\<close>

type_synonym bytes = string
type_synonym int64 = "64 word"
type_synonym uint64 = "64 word"

text \<open>Go error values: the two \<open>strconv\<close> errors with the offending input, the
  \<open>base64\<close> error, and any other error by its message.\<close>

datatype error = ErrSyntax string | ErrRange string | CorruptInputError | Err string

text \<open>One entry per call of the logger, in call order.\<close>

datatype logEntry =
    LogInfo string
  | LogError error
  | LogErrorf string error
  | LogDebugf string string

text \<open>\<open>conf.Config\<close>: the two fields the handler reads. Both are Go \<open>int\<close>s (64 bits
  on the platforms the service runs on); the source converts them with \<open>int64(...)\<close> and
  \<open>time.Duration(...)\<close> and compares them signed.\<close>

record Config =
  UrlCacheExpiration :: int64
  MaxCacheUses :: int64

text \<open>\<open>models.Message\<close>, as \<open>processRequest\<close> fills it.\<close>

record Message =
  ProjectId :: int
  RequestMethod :: string
  Headers :: "string \<rightharpoonup> string list"
  OriginUrl :: string
  RequestBody :: bytes

text \<open>The parts of \<open>http.Request\<close> the package reads. \<open>Body\<close> is what
  \<open>ioutil.ReadAll(r.Body)\<close> returns, \<open>Vars\<close> is \<open>mux.Vars(r)\<close>, \<open>URLQuery\<close> is
  \<open>r.URL.Query()\<close>.\<close>

record Request =
  RemoteAddr :: string
  Method :: string
  URLPath :: string
  URLQuery :: "string \<rightharpoonup> string list"
  RequestURI :: string
  Header :: "string \<rightharpoonup> string list"
  Body :: "bytes \<times> error option"
  Vars :: "string \<rightharpoonup> string"

text \<open>\<open>http.ResponseWriter\<close>: the header map and the status code of the first
  \<open>WriteHeader\<close>.\<close>

record ResponseWriter =
  header :: "string \<rightharpoonup> string"
  status :: "nat option"

definition newResponseWriter :: ResponseWriter where
  "newResponseWriter = \<lparr>header = Map.empty, status = None\<rparr>"

definition WriteHeader :: "nat \<Rightarrow> ResponseWriter \<Rightarrow> ResponseWriter" where
  "WriteHeader code w = (if status w = None then w\<lparr>status := Some code\<rparr> else w)"

definition HeaderSet :: "string \<Rightarrow> string \<Rightarrow> ResponseWriter \<Rightarrow> ResponseWriter" where
  "HeaderSet k v w = w\<lparr>header := (header w)(k \<mapsto> v)\<rparr>"

definition StatusNotFound :: nat where "StatusNotFound = 404"
definition StatusNoContent :: nat where "StatusNoContent = 204"

text \<open>\<open>XSentryAuth\<close>.\<close>

record XSentryAuth =
  sentry_key :: string
  sentry_secret :: string

text \<open>The mutable part of \<open>Api\<close>: the configuration, the cache store behind
  \<open>a.cache\<close> (of any type \<open>'c\<close>), the messages handed to \<open>a.requestStorage.Put\<close> in
  order, the two counters, and the logger's output.\<close>

record 'c Api =
  cfg :: Config
  cache :: 'c
  requestStorage :: "(int \<times> Message) list"
  ignoredItems :: uint64
  processedItems :: uint64
  logged :: "logEntry list"

text \<open>The collaborators whose code lies outside \<open>api/api.go\<close>, taken as parameters:
  \<open>hash.HashForGrouping\<close>, \<open>header.ParseList\<close>, the three methods of
  \<open>models.Cache\<close> and \<open>models.SentryProjects.IsValidProjectAndPublicKey\<close>.
  \<open>cacheSet\<close> receives the \<open>time.Duration\<close> in nanoseconds.\<close>

record 'c Deps =
  HashForGrouping :: "bytes \<Rightarrow> string \<times> error option"
  ParseList :: "(string \<rightharpoonup> string list) \<Rightarrow> string \<Rightarrow> string list"
  cacheGet :: "string \<Rightarrow> 'c \<Rightarrow> int64 \<times> error option"
  cacheSet :: "string \<Rightarrow> int64 \<Rightarrow> 'c \<Rightarrow> 'c"
  cacheIncr :: "string \<Rightarrow> 'c \<Rightarrow> (int64 \<times> error option) \<times> 'c"
  IsValidProjectAndPublicKey :: "int \<Rightarrow> string \<Rightarrow> bool"

subsection \<open>\<open>strconv\<close>\<close>

definition isDigit :: "char \<Rightarrow> bool" where
  "isDigit c = (c \<in> set ''0123456789'')"

definition digitVal :: "char \<Rightarrow> nat" where
  "digitVal c = of_char c - 48"

text \<open>The digit loop of \<open>strconv.ParseUint\<close> in base 10 and 64 bits: left to right, a
  character that is no digit is a syntax error, a value beyond \<open>2^64 - 1\<close> a range
  error.\<close>

datatype numErr = Syntax | Range

fun parseDigits :: "nat \<Rightarrow> string \<Rightarrow> numErr + nat" where
  "parseDigits n [] = Inr n"
| "parseDigits n (c # cs) =
     (if \<not> isDigit c then Inl Syntax
      else if n * 10 + digitVal c \<ge> 2 ^ 64 then Inl Range
      else parseDigits (n * 10 + digitVal c) cs)"

text \<open>\<open>strconv.Atoi\<close>: an optional sign, at least one digit, the value in the range
  of a 64-bit \<open>int\<close>.\<close>

definition Atoi :: "string \<Rightarrow> error + int" where
  "Atoi s =
     (case s of
        [] \<Rightarrow> Inl (ErrSyntax s)
      | c # cs \<Rightarrow>
          (let neg = (c = CHR ''-'');
               ds = (if c = CHR ''+'' \<or> c = CHR ''-'' then cs else s)
           in if ds = [] then Inl (ErrSyntax s)
              else (case parseDigits 0 ds of
                      Inl Syntax \<Rightarrow> Inl (ErrSyntax s)
                    | Inl Range \<Rightarrow> Inl (ErrRange s)
                    | Inr un \<Rightarrow>
                        if \<not> neg \<and> un \<ge> 2 ^ 63 then Inl (ErrRange s)
                        else if neg \<and> un > 2 ^ 63 then Inl (ErrRange s)
                        else Inr (if neg then - int un else int un))))"

fun natDigits :: "nat \<Rightarrow> string" where
  "natDigits n =
     (if n < 10 then [char_of (48 + n)]
      else natDigits (n div 10) @ [char_of (48 + n mod 10)])"

declare natDigits.simps [simp del]

text \<open>\<open>strconv.FormatInt(i, 10)\<close>.\<close>

definition FormatInt :: "int64 \<Rightarrow> string" where
  "FormatInt i =
     (if sint i < 0 then CHR ''-'' # natDigits (nat (- sint i))
      else natDigits (nat (sint i)))"

subsection \<open>\<open>encoding/base64\<close>: \<open>StdEncoding.DecodeString\<close>\<close>

text \<open>The standard alphabet with padding \<open>=\<close>, as the Go library decodes it: carriage
  returns and line feeds are skipped wherever they stand, every quantum has four
  characters, only the last may end in \<open>=\<close> or \<open>==\<close>, nothing may follow the padding,
  and the unused low bits of a padded quantum are not checked (the encoding is not
  strict). The decoder is written on the input with CR and LF removed.\<close>

definition encodeStd :: string where
  "encodeStd = ''ABCDEFGHIJKLMNOPQRSTUVWXYZabcdefghijklmnopqrstuvwxyz0123456789+/''"

fun indexOf :: "char \<Rightarrow> string \<Rightarrow> nat option" where
  "indexOf c [] = None"
| "indexOf c (x # xs) =
     (if c = x then Some 0 else map_option Suc (indexOf c xs))"

definition decodeMap :: "char \<Rightarrow> nat option" where
  "decodeMap c = indexOf c encodeStd"

definition padChar :: char where
  "padChar = CHR ''=''"

definition isNewline :: "char \<Rightarrow> bool" where
  "isNewline c = (c = CHR 0x0A \<or> c = CHR 0x0D)"

text \<open>Four 6-bit values packed into 24 bits, big-endian.\<close>

definition quantumVal :: "nat \<Rightarrow> nat \<Rightarrow> nat \<Rightarrow> nat \<Rightarrow> nat" where
  "quantumVal x y z u = x * 262144 + y * 4096 + z * 64 + u"

definition byteAt :: "nat \<Rightarrow> nat \<Rightarrow> char" where
  "byteAt val shift = char_of ((val div 2 ^ shift) mod 256)"

fun decodeQuanta :: "string \<Rightarrow> error + bytes" where
  "decodeQuanta [] = Inr []"
| "decodeQuanta (a # b # c # d # rest) =
     (case (decodeMap a, decodeMap b) of
        (Some x, Some y) \<Rightarrow>
          (case decodeMap c of
             Some z \<Rightarrow>
               (case decodeMap d of
                  Some u \<Rightarrow>
                    (case decodeQuanta rest of
                       Inl e \<Rightarrow> Inl e
                     | Inr bs \<Rightarrow>
                         Inr (byteAt (quantumVal x y z u) 16 # byteAt (quantumVal x y z u) 8
                              # byteAt (quantumVal x y z u) 0 # bs))
                | None \<Rightarrow>
                    if d = padChar \<and> rest = []
                    then Inr [byteAt (quantumVal x y z 0) 16, byteAt (quantumVal x y z 0) 8]
                    else Inl CorruptInputError)
           | None \<Rightarrow>
               if c = padChar \<and> d = padChar \<and> rest = []
               then Inr [byteAt (quantumVal x y 0 0) 16]
               else Inl CorruptInputError)
      | _ \<Rightarrow> Inl CorruptInputError)"
| "decodeQuanta _ = Inl CorruptInputError"

definition DecodeString :: "string \<Rightarrow> error + bytes" where
  "DecodeString s = decodeQuanta (filter (\<lambda>c. \<not> isNewline c) s)"

subsection \<open>The helpers of the handler\<close>

definition logRequest :: "'c Api \<Rightarrow> Request \<Rightarrow> 'c Api" where
  "logRequest a r =
     a\<lparr>logged := logged a @ [LogInfo (RemoteAddr r @ '' '' @ Method r @ '' '' @ URLPath r)]\<rparr>"

text \<open>\<open>url.Values.Get\<close>: the first value of the key, or the empty string.\<close>

definition ValuesGet :: "(string \<rightharpoonup> string list) \<Rightarrow> string \<Rightarrow> string" where
  "ValuesGet q k = (case q k of None \<Rightarrow> [] | Some [] \<Rightarrow> [] | Some (v # _) \<Rightarrow> v)"

text \<open>The body of the loop of \<open>getSentryKeyAndSecret\<close>: \<open>strings.Contains(v, "=")\<close>,
  then \<open>strings.SplitN(v, "=", 2)\<close>, which cuts at the first \<open>=\<close>.\<close>

definition authField :: "string \<Rightarrow> string" where
  "authField v = takeWhile (\<lambda>c. c \<noteq> CHR ''='') v"

definition authValue :: "string \<Rightarrow> string" where
  "authValue v = drop 1 (dropWhile (\<lambda>c. c \<noteq> CHR ''='') v)"

definition authStep :: "XSentryAuth \<Rightarrow> string \<Rightarrow> XSentryAuth" where
  "authStep x v =
     (if CHR ''='' \<in> set v then
        (if authField v = ''sentry_key'' then x\<lparr>sentry_key := authValue v\<rparr>
         else if authField v = ''sentry_secret'' then x\<lparr>sentry_secret := authValue v\<rparr>
         else x)
      else x)"

definition getSentryKeyAndSecret :: "'c Deps \<Rightarrow> Request \<Rightarrow> XSentryAuth" where
  "getSentryKeyAndSecret d r =
     foldl authStep
       \<lparr>sentry_key = ValuesGet (URLQuery r) ''sentry_key'', sentry_secret = []\<rparr>
       (ParseList d (Header r) ''X-Sentry-Auth'')"

definition getRequestBody :: "Request \<Rightarrow> bytes \<times> error option" where
  "getRequestBody r =
     (case Body r of
        (body, Some err) \<Rightarrow> (body, Some err)
      | (body, None) \<Rightarrow>
          (case DecodeString body of
             Inr b64decodedBody \<Rightarrow> (b64decodedBody, None)
           | Inl _ \<Rightarrow> (body, None)))"

text \<open>\<open>time.Duration(n) * time.Second\<close>, in 64-bit arithmetic.\<close>

definition seconds :: "int64 \<Rightarrow> int64" where
  "seconds n = n * 1000000000"

definition validateCache :: "'c Deps \<Rightarrow> 'c Api \<Rightarrow> string \<Rightarrow> int64 \<times> 'c Api" where
  "validateCache d a url =
     (if 0 < sint (UrlCacheExpiration (cfg a)) then
        (let count = fst (cacheGet d url (cache a));
             a1 = (if count = 0
                   then a\<lparr>cache := cacheSet d url (seconds (UrlCacheExpiration (cfg a))) (cache a)\<rparr>
                   else a);
             res = cacheIncr d url (cache a1)
         in (fst (fst res), a1\<lparr>cache := snd res\<rparr>))
      else (0, a))"

definition processRequest :: "'c Api \<Rightarrow> Request \<Rightarrow> int \<Rightarrow> string \<Rightarrow> bytes \<Rightarrow> 'c Api" where
  "processRequest a r projectId originUrl body =
     a\<lparr>requestStorage := requestStorage a @
          [(projectId,
            \<lparr>ProjectId = projectId, RequestMethod = Method r, Headers = Header r,
             OriginUrl = originUrl, RequestBody = body\<rparr>)]\<rparr>"

definition logHashError :: "'c Api \<Rightarrow> error option \<Rightarrow> 'c Api" where
  "logHashError a e =
     (case e of
        None \<Rightarrow> a
      | Some err \<Rightarrow>
          a\<lparr>logged := logged a @
               [LogErrorf ''Unable to calculate a hash for the request: %s'' err]\<rparr>)"

definition logDebugf :: "string \<Rightarrow> string \<Rightarrow> 'c Api \<Rightarrow> 'c Api" where
  "logDebugf fmt s a = a\<lparr>logged := logged a @ [LogDebugf fmt s]\<rparr>"

definition logError :: "error \<Rightarrow> 'c Api \<Rightarrow> 'c Api" where
  "logError e a = a\<lparr>logged := logged a @ [LogError e]\<rparr>"

definition projectIdVar :: "Request \<Rightarrow> string" where
  "projectIdVar r = (case Vars r ''projectId'' of None \<Rightarrow> [] | Some s \<Rightarrow> s)"

text \<open>The admission decision, lines 106 to 122 of \<open>apiHandler\<close>.\<close>

definition decide ::
  "'c Deps \<Rightarrow> 'c Api \<Rightarrow> ResponseWriter \<Rightarrow> Request \<Rightarrow> int \<Rightarrow> string \<Rightarrow> string \<Rightarrow> bytes
     \<Rightarrow> 'c Api \<times> ResponseWriter" where
  "decide d a w r projectId cacheKey originUrl bodyBytes =
     (let res = validateCache d a cacheKey; count = fst res; a1 = snd res
      in if sint (MaxCacheUses (cfg a)) < sint count then
           (a1\<lparr>ignoredItems := ignoredItems a1 + 1\<rparr>,
            WriteHeader StatusNoContent
              (HeaderSet ''X-CYCLOPS-STATUS'' ''IGNORED''
                (HeaderSet ''X-CYCLOPS-CACHE-COUNT'' (FormatInt count) w)))
         else
           (processRequest (a1\<lparr>processedItems := processedItems a1 + 1\<rparr>)
              r projectId originUrl bodyBytes,
            WriteHeader StatusNoContent
              (HeaderSet ''X-CYCLOPS-STATUS'' ''PROCESSED''
                (HeaderSet ''X-CYCLOPS-CACHE-COUNT'' (FormatInt count) w))))"

definition apiHandler ::
  "'c Deps \<Rightarrow> 'c Api \<Rightarrow> ResponseWriter \<Rightarrow> Request \<Rightarrow> 'c Api \<times> ResponseWriter" where
  "apiHandler d a w r =
     (let a0 = logRequest a r in
      case Atoi (projectIdVar r) of
        Inl err \<Rightarrow> (logError err a0, WriteHeader StatusNotFound w)
      | Inr projectId \<Rightarrow>
          if \<not> IsValidProjectAndPublicKey d projectId (sentry_key (getSentryKeyAndSecret d r))
          then (a0, WriteHeader StatusNotFound w)
          else
            (case getRequestBody r of
               (bodyBytes, Some err) \<Rightarrow> (logError err a0, WriteHeader StatusNotFound w)
             | (bodyBytes, None) \<Rightarrow>
                 (let h = HashForGrouping d bodyBytes;
                      exceptionHash = fst h;
                      a1 = logHashError a0 (snd h);
                      cacheKey = projectIdVar r @ exceptionHash;
                      a2 = logDebugf ''Cache Key: %s'' cacheKey a1;
                      originUrl = ''http://localhost:2222'' @ RequestURI r;
                      a3 = logDebugf ''Origin URL: %s'' originUrl a2
                  in decide d a3 w r projectId cacheKey originUrl bodyBytes)))"

subsection \<open>The cache store\<close>

text \<open>Modelled from the spec: \<open>models.Cache\<close> (its \<open>Get\<close>, \<open>Set\<close> and \<open>Incr\<close> are
  called by \<open>validateCache\<close>; the file that defines them is absent). The spec's
  AdmissionCache, section 4.1, within one TTL epoch: \<open>get\<close> returns the current count of
  the key or the zero value when there is no entry; \<open>setIfAbsent\<close> makes a fresh entry
  only if none exists and is a no-op otherwise; \<open>incrementAndGet\<close> increments and
  returns the post-increment value, an absent entry counting as fresh, so that the
  counter restarts at 1. When the store cannot be reached, \<open>get\<close> and
  \<open>incrementAndGet\<close> fail with \<open>StoreUnavailable\<close> and return the zero value beside
  the error ("not previously seen"), and nothing is stored. The width of the window
  is not modelled: an epoch is a run of operations between two expiries of the key, and
  \<open>expire\<close> ends it.\<close>

record Store =
  available :: bool
  counts :: "string \<rightharpoonup> int64"

definition StoreUnavailable :: error where
  "StoreUnavailable = Err ''StoreUnavailable''"

definition storeGet :: "string \<Rightarrow> Store \<Rightarrow> int64 \<times> error option" where
  "storeGet k s =
     (if \<not> available s then (0, Some StoreUnavailable)
      else (case counts s k of None \<Rightarrow> (0, None) | Some c \<Rightarrow> (c, None)))"

definition storeSetIfAbsent :: "string \<Rightarrow> int64 \<Rightarrow> Store \<Rightarrow> Store" where
  "storeSetIfAbsent k ttl s =
     (if available s \<and> counts s k = None then s\<lparr>counts := (counts s)(k \<mapsto> 0)\<rparr> else s)"

definition storeIncrementAndGet :: "string \<Rightarrow> Store \<Rightarrow> (int64 \<times> error option) \<times> Store" where
  "storeIncrementAndGet k s =
     (if \<not> available s then ((0, Some StoreUnavailable), s)
      else (let c = (case counts s k of None \<Rightarrow> 0 | Some c \<Rightarrow> c) + 1
            in ((c, None), s\<lparr>counts := (counts s)(k \<mapsto> c)\<rparr>)))"

definition expire :: "string \<Rightarrow> Store \<Rightarrow> Store" where
  "expire k s = s\<lparr>counts := (counts s)(k := None)\<rparr>"

text \<open>The collaborators with the cache of the spec in the place of \<open>models.Cache\<close>.\<close>

definition storeDeps ::
  "(bytes \<Rightarrow> string \<times> error option) \<Rightarrow> ((string \<rightharpoonup> string list) \<Rightarrow> string \<Rightarrow> string list)
     \<Rightarrow> (int \<Rightarrow> string \<Rightarrow> bool) \<Rightarrow> Store Deps" where
  "storeDeps hashFn parseFn validFn =
     \<lparr>HashForGrouping = hashFn, ParseList = parseFn, cacheGet = storeGet,
      cacheSet = storeSetIfAbsent, cacheIncr = storeIncrementAndGet,
      IsValidProjectAndPublicKey = validFn\<rparr>"

subsection \<open>Base64 as the spec speaks of it\<close>

text \<open>For comparison with the decoder: a string is syntactically valid standard base64
  when, CR and LF set aside as the decoder does, its length is a multiple of four and,
  after at most two trailing padding characters are removed, every character belongs to
  the standard alphabet.\<close>

definition isAlphabet :: "char \<Rightarrow> bool" where
  "isAlphabet c = (c \<in> set encodeStd)"

definition stripPad :: "string \<Rightarrow> string" where
  "stripPad t =
     (if t \<noteq> [] \<and> last t = padChar then
        (if butlast t \<noteq> [] \<and> last (butlast t) = padChar then butlast (butlast t)
         else butlast t)
      else t)"

definition wellPadded :: "string \<Rightarrow> bool" where
  "wellPadded t = (length t mod 4 = 0 \<and> list_all isAlphabet (stripPad t))"

definition validStdBase64 :: "string \<Rightarrow> bool" where
  "validStdBase64 s = wellPadded (filter (\<lambda>c. \<not> isNewline c) s)"

text \<open>The encoding side, which a client applies (\<open>StdEncoding.EncodeToString\<close>): three
  bytes make four characters of six bits each, and a last group of one or two bytes is
  padded with \<open>=\<close>.\<close>

definition sextet :: "nat \<Rightarrow> char" where
  "sextet n = encodeStd ! (n mod 64)"

fun EncodeToString :: "bytes \<Rightarrow> string" where
  "EncodeToString [] = []"
| "EncodeToString [a] =
     (let val = of_char a * 65536
      in [sextet (val div 262144), sextet (val div 4096), padChar, padChar])"
| "EncodeToString [a, b] =
     (let val = of_char a * 65536 + of_char b * 256
      in [sextet (val div 262144), sextet (val div 4096), sextet (val div 64), padChar])"
| "EncodeToString (a # b # c # rest) =
     (let val = of_char a * 65536 + of_char b * 256 + of_char c
      in sextet (val div 262144) # sextet (val div 4096) # sextet (val div 64) # sextet val
         # EncodeToString rest)"

text \<open>The cache key that \<open>apiHandler\<close> builds for a request: the \<open>projectId\<close>
  variable followed by the grouping identifier of the body as \<open>getRequestBody\<close>
  returns it.\<close>

definition cacheKeyOf :: "'c Deps \<Rightarrow> Request \<Rightarrow> string" where
  "cacheKeyOf d r = projectIdVar r @ fst (HashForGrouping d (fst (getRequestBody r)))"

subsection \<open>Runs and observations\<close>

text \<open>Requests handled one after the other, each with a fresh response writer: the
  final state and the responses in order.\<close>

fun submitAll :: "'c Deps \<Rightarrow> 'c Api \<Rightarrow> Request list \<Rightarrow> 'c Api \<times> ResponseWriter list" where
  "submitAll d a [] = (a, [])"
| "submitAll d a (r # rs) =
     (let res = apiHandler d a newResponseWriter r;
          rest = submitAll d (fst res) rs
      in (fst rest, snd res # snd rest))"

text \<open>What a client and the delivery queue observe: the status tag of a response,
  and the entry that \<open>processRequest\<close> puts on the queue for a request.\<close>

definition statusTag :: "ResponseWriter \<Rightarrow> string option" where
  "statusTag w = header w ''X-CYCLOPS-STATUS''"

definition messageOf :: "int \<Rightarrow> Request \<Rightarrow> int \<times> Message" where
  "messageOf pid r =
     (pid, \<lparr>ProjectId = pid, RequestMethod = Method r, Headers = Header r,
            OriginUrl = ''http://localhost:2222'' @ RequestURI r,
            RequestBody = fst (getRequestBody r)\<rparr>)"

text \<open>The spec's reading of the header list, for comparison with the loop of
  \<open>getSentryKeyAndSecret\<close>: the value of the last entry of the form \<open>field=value\<close>
  (cut at its first \<open>=\<close>) whose field is \<open>f\<close>, if there is one.\<close>

definition headerField :: "string \<Rightarrow> string list \<Rightarrow> string option" where
  "headerField f vs =
     (let xs = filter (\<lambda>v. CHR ''='' \<in> set v \<and> authField v = f) vs
      in if xs = [] then None else Some (authValue (last xs)))"

text \<open>The count the store holds for a key, zero when there is no entry.\<close>

definition countOf :: "Store \<Rightarrow> string \<Rightarrow> int64" where
  "countOf s k = (case counts s k of None \<Rightarrow> 0 | Some c \<Rightarrow> c)"

subsection \<open>Concurrent callers of \<open>validateCache\<close>\<close>

text \<open>With a positive TTL \<open>validateCache\<close> performs three operations on the shared
  cache: \<open>Get\<close>; \<open>Set\<close> if the count read is zero; \<open>Incr\<close>, whose result it
  returns. A caller is at one of four points: before \<open>Get\<close>, after \<open>Get\<close> with the
  count it read, before \<open>Incr\<close>, or returned with its count. Each cache operation is
  one atomic step, as section 5 of the spec has it (the store is the single point of
  mutual exclusion); the steps of different callers interleave in any order.\<close>

datatype pc = AtGet | AtSet int64 | AtIncr | Done int64

fun callerStep :: "'c Deps \<Rightarrow> string \<Rightarrow> int64 \<Rightarrow> pc \<Rightarrow> 'c \<Rightarrow> (pc \<times> 'c) option" where
  "callerStep d url ttl AtGet c = Some (AtSet (fst (cacheGet d url c)), c)"
| "callerStep d url ttl (AtSet n) c =
     Some (AtIncr, if n = 0 then cacheSet d url (seconds ttl) c else c)"
| "callerStep d url ttl AtIncr c =
     (let res = cacheIncr d url c in Some (Done (fst (fst res)), snd res))"
| "callerStep d url ttl (Done n) c = None"

inductive interleave ::
  "'c Deps \<Rightarrow> string \<Rightarrow> int64 \<Rightarrow> pc list \<times> 'c \<Rightarrow> pc list \<times> 'c \<Rightarrow> bool"
  for d url ttl where
  step: "i < length ps \<Longrightarrow> callerStep d url ttl (ps ! i) c = Some (p', c') \<Longrightarrow>
         interleave d url ttl (ps, c) (ps[i := p'], c')"

text \<open>The counts returned so far, in the order of the callers.\<close>

fun returned :: "pc \<Rightarrow> int64 list" where
  "returned (Done n) = [n]"
| "returned _ = []"

definition returnedCounts :: "pc list \<Rightarrow> int64 list" where
  "returnedCounts ps = concat (map returned ps)"

fun isDone :: "pc \<Rightarrow> bool" where
  "isDone (Done n) = True"
| "isDone _ = False"

text \<open>The cache operations a caller has still to perform.\<close>

fun remaining :: "pc \<Rightarrow> nat" where
  "remaining AtGet = 3"
| "remaining (AtSet n) = 2"
| "remaining AtIncr = 1"
| "remaining (Done n) = 0"

text \<open>The counts \<open>1, \<dots>, m\<close> as 64-bit values, and the invariant of the interleaved
  runs on the store of the spec: the store is reachable; as long as the key has no entry
  every caller is before \<open>Get\<close> or has read zero; the stored count is the number of
  callers that have returned; and the counts returned are \<open>1, \<dots>, m\<close>.\<close>

definition firstCounts :: "nat \<Rightarrow> int64 list" where
  "firstCounts m = map (\<lambda>k. of_nat (Suc k)) [0..<m]"

definition storeInv :: "string \<Rightarrow> pc list \<times> Store \<Rightarrow> bool" where
  "storeInv url cf =
     (let ps = fst cf; s = snd cf
      in available s
       \<and> (counts s url = None \<longrightarrow> (\<forall>q \<in> set ps. q = AtGet \<or> q = AtSet 0))
       \<and> countOf s url = of_nat (length (returnedCounts ps))
       \<and> mset (returnedCounts ps) = mset (firstCounts (length (returnedCounts ps))))"

subsection \<open>Sample collaborators and inputs\<close>

text \<open>Concrete collaborators for the worked instances below: a grouping function
  that returns the body itself as its identifier (so that it has no collisions), one
  that always fails and returns the empty identifier beside its error, a header parser
  that returns the values of the header unsplit, and a project table that accepts every
  project and key.\<close>

definition hashBody :: "bytes \<Rightarrow> string \<times> error option" where
  "hashBody b = (b, None)"

definition hashFails :: "bytes \<Rightarrow> string \<times> error option" where
  "hashFails b = ([], Some (Err ''grouping failed''))"

definition parseValues :: "(string \<rightharpoonup> string list) \<Rightarrow> string \<Rightarrow> string list" where
  "parseValues h k = (case h k of None \<Rightarrow> [] | Some vs \<Rightarrow> vs)"

definition anyProject :: "int \<Rightarrow> string \<Rightarrow> bool" where
  "anyProject p k = True"

definition sampleDeps :: "Store Deps" where
  "sampleDeps = storeDeps hashBody parseValues anyProject"

definition sampleRequest :: "bytes \<times> error option \<Rightarrow> Request" where
  "sampleRequest b =
     \<lparr>RemoteAddr = ''10.0.0.1'', Method = ''POST'', URLPath = ''/api/7/store/'',
      URLQuery = Map.empty, RequestURI = ''/api/7/store/'', Header = Map.empty,
      Body = b, Vars = [''projectId'' \<mapsto> ''7'']\<rparr>"

definition sampleApi :: "int64 \<Rightarrow> int64 \<Rightarrow> Store \<Rightarrow> Store Api" where
  "sampleApi ttl maxUses s =
     \<lparr>cfg = \<lparr>UrlCacheExpiration = ttl, MaxCacheUses = maxUses\<rparr>, cache = s,
      requestStorage = [], ignoredItems = 0, processedItems = 0, logged = []\<rparr>"

definition emptyStore :: Store where
  "emptyStore = \<lparr>available = True, counts = Map.empty\<rparr>"

section \<open>Properties\<close>

subsection \<open>The base64 decoder: when it succeeds, and what it returns on an encoding\<close>

lemma length_encodeStd: "length encodeStd = 64"
  by (simp add: encodeStd_def)

lemma distinct_encodeStd: "distinct encodeStd"
  by (simp add: encodeStd_def)

lemma indexOf_None: "indexOf c xs = None \<longleftrightarrow> c \<notin> set xs"
  by (induction xs) auto

lemma indexOf_nth: "distinct xs \<Longrightarrow> k < length xs \<Longrightarrow> indexOf (xs ! k) xs = Some k"
proof (induction xs arbitrary: k)
  case Nil
  then show ?case by simp
next
  case (Cons x xs)
  then show ?case by (cases k) auto
qed

lemma decodeMap_alphabet: "decodeMap c \<noteq> None \<longleftrightarrow> isAlphabet c"
  by (simp add: decodeMap_def isAlphabet_def indexOf_None)

lemma decodeMap_sextet: "decodeMap (sextet n) = Some (n mod 64)"
  by (simp add: decodeMap_def sextet_def indexOf_nth distinct_encodeStd length_encodeStd)

lemma pad_not_alphabet: "\<not> isAlphabet padChar"
  by (simp add: isAlphabet_def padChar_def encodeStd_def)

lemma decodeMap_pad: "decodeMap padChar = None"
  using pad_not_alphabet decodeMap_alphabet by blast

lemma newline_not_alphabet: "isAlphabet c \<Longrightarrow> \<not> isNewline c"
  by (auto simp: isAlphabet_def isNewline_def encodeStd_def)

lemma pad_not_newline: "\<not> isNewline padChar"
  by (simp add: isNewline_def padChar_def)

lemma sextet_alphabet: "isAlphabet (sextet n)"
  by (simp add: isAlphabet_def sextet_def length_encodeStd)

lemma stripPad_Cons: "2 \<le> length t \<Longrightarrow> stripPad (x # t) = x # stripPad t"
proof -
  assume len: "2 \<le> length t"
  then have t: "t \<noteq> []" by auto
  from len have bt: "butlast t \<noteq> []"
    by (cases t rule: rev_cases) auto
  show ?thesis
    using t bt by (simp add: stripPad_def)
qed

lemma wellPadded_quantum:
  "wellPadded [a, b, c, d] \<longleftrightarrow>
     isAlphabet a \<and> isAlphabet b \<and>
     ((isAlphabet c \<and> (isAlphabet d \<or> d = padChar)) \<or> (c = padChar \<and> d = padChar))"
  using pad_not_alphabet by (auto simp: wellPadded_def stripPad_def)

lemma wellPadded_Cons4:
  assumes "rest \<noteq> []"
  shows "wellPadded (a # b # c # d # rest) \<longleftrightarrow>
     isAlphabet a \<and> isAlphabet b \<and> isAlphabet c \<and> isAlphabet d \<and> wellPadded rest"
proof (cases "length rest mod 4 = 0")
  case False
  then show ?thesis by (simp add: wellPadded_def)
next
  case True
  with assms have "4 \<le> length rest"
    by (cases rest) (auto simp: mod_Suc split: if_splits)
  then have "stripPad (a # b # c # d # rest) = a # b # c # d # stripPad rest"
    by (simp add: stripPad_Cons)
  then show ?thesis using True by (simp add: wellPadded_def)
qed

lemma wellPadded_short:
  "\<not> wellPadded [a]" "\<not> wellPadded [a, b]" "\<not> wellPadded [a, b, c]"
  by (simp_all add: wellPadded_def)

lemma decodeQuanta_ok_iff: "(\<exists>bs. decodeQuanta t = Inr bs) \<longleftrightarrow> wellPadded t"
proof (induction t rule: decodeQuanta.induct)
  case 1
  show ?case by (simp add: wellPadded_def stripPad_def)
next
  case (2 a b c d rest)
  show ?case
  proof (cases "isAlphabet a \<and> isAlphabet b")
    case False
    then have "decodeMap a = None \<or> decodeMap b = None"
      using decodeMap_alphabet by blast
    then have "decodeQuanta (a # b # c # d # rest) = Inl CorruptInputError"
      by (auto split: option.splits)
    moreover have "\<not> wellPadded (a # b # c # d # rest)"
      using False wellPadded_quantum [of a b c d] wellPadded_Cons4 [of rest a b c d]
      by (cases "rest = []") auto
    ultimately show ?thesis by simp
  next
    case True
    then obtain x y where xy: "decodeMap a = Some x" "decodeMap b = Some y"
      using decodeMap_alphabet by (metis not_None_eq)
    show ?thesis
    proof (cases "decodeMap c")
      case None
      then have nc: "\<not> isAlphabet c" using decodeMap_alphabet by blast
      have "(\<exists>bs. decodeQuanta (a # b # c # d # rest) = Inr bs)
              \<longleftrightarrow> c = padChar \<and> d = padChar \<and> rest = []"
        by (simp add: xy None)
      moreover have "wellPadded (a # b # c # d # rest) \<longleftrightarrow> c = padChar \<and> d = padChar \<and> rest = []"
        using True nc wellPadded_quantum [of a b c d] wellPadded_Cons4 [of rest a b c d]
        by (cases "rest = []") auto
      ultimately show ?thesis by simp
    next
      case (Some z)
      then have ac: "isAlphabet c" using decodeMap_alphabet by (metis option.distinct(1))
      show ?thesis
      proof (cases "decodeMap d")
        case None
        then have nd: "\<not> isAlphabet d" using decodeMap_alphabet by blast
        have "(\<exists>bs. decodeQuanta (a # b # c # d # rest) = Inr bs)
                \<longleftrightarrow> d = padChar \<and> rest = []"
          by (simp add: xy Some None)
        moreover have "wellPadded (a # b # c # d # rest) \<longleftrightarrow> d = padChar \<and> rest = []"
          using True ac nd pad_not_alphabet wellPadded_quantum [of a b c d]
            wellPadded_Cons4 [of rest a b c d]
          by (cases "rest = []") auto
        ultimately show ?thesis by simp
      next
        case (Some u)
        note u = this
        then have ad: "isAlphabet d" using decodeMap_alphabet by (metis option.distinct(1))
        have IH: "(\<exists>bs. decodeQuanta rest = Inr bs) \<longleftrightarrow> wellPadded rest"
          using "2.IH" xy \<open>decodeMap c = Some z\<close> u by auto
        have "(\<exists>bs. decodeQuanta (a # b # c # d # rest) = Inr bs)
                \<longleftrightarrow> (\<exists>bs. decodeQuanta rest = Inr bs)"
          by (simp add: xy \<open>decodeMap c = Some z\<close> u split: sum.splits)
        moreover have "wellPadded (a # b # c # d # rest) \<longleftrightarrow> wellPadded rest"
        proof (cases "rest = []")
          case True
          then show ?thesis
            using \<open>isAlphabet a \<and> isAlphabet b\<close> ac ad wellPadded_quantum [of a b c d]
            by (simp add: wellPadded_def stripPad_def)
        next
          case False
          then show ?thesis
            using \<open>isAlphabet a \<and> isAlphabet b\<close> ac ad wellPadded_Cons4 [of rest a b c d] by simp
        qed
        ultimately show ?thesis using IH by simp
      qed
    qed
  qed
qed (simp_all add: wellPadded_short)

lemma quantumVal_sextets:
  assumes "val < 16777216"
  shows "quantumVal ((val div 262144) mod 64) ((val div 4096) mod 64) ((val div 64) mod 64)
           (val mod 64) = val"
proof -
  have a: "val div 262144 < 64" using assms by simp
  have d1: "val div 4096 = (val div 64) div 64" by (simp add: div_mult2_eq [symmetric])
  have d2: "val div 262144 = (val div 4096) div 64" by (simp add: div_mult2_eq [symmetric])
  have e0: "val = (val div 64) * 64 + val mod 64" by simp
  have e1: "val div 64 = (val div 4096) * 64 + (val div 64) mod 64" by (simp add: d1)
  have e2: "val div 4096 = (val div 262144) * 64 + (val div 4096) mod 64" by (simp add: d2)
  have "quantumVal ((val div 262144) mod 64) ((val div 4096) mod 64) ((val div 64) mod 64)
           (val mod 64) =
        ((val div 262144 * 64 + (val div 4096) mod 64) * 64 + (val div 64) mod 64) * 64 + val mod 64"
    using a by (simp add: quantumVal_def algebra_simps)
  also have "\<dots> = val" using e0 e1 e2 by metis
  finally show ?thesis .
qed

lemma bytes_of_triple:
  assumes "a < 256" "b < 256" "c < (256::nat)"
  shows "((a * 65536 + b * 256 + c) div 2 ^ 16) mod 256 = a"
    and "((a * 65536 + b * 256 + c) div 2 ^ 8) mod 256 = b"
    and "((a * 65536 + b * 256 + c) div 2 ^ 0) mod 256 = c"
proof -
  have r: "a * 65536 + b * 256 + c = c + (a * 256 + b) * 256" by simp
  have d8: "(a * 65536 + b * 256 + c) div 256 = a * 256 + b"
    unfolding r using assms(3) by simp
  have "(a * 65536 + b * 256 + c) div 65536 = ((a * 65536 + b * 256 + c) div 256) div 256"
    by (simp add: div_mult2_eq [symmetric])
  also have "\<dots> = (a * 256 + b) div 256" by (simp only: d8)
  also have "\<dots> = a" using assms(2) by simp
  finally have d16: "(a * 65536 + b * 256 + c) div 65536 = a" .
  show "((a * 65536 + b * 256 + c) div 2 ^ 16) mod 256 = a"
    using d16 assms(1) by simp
  have "(a * 256 + b) mod 256 = b" using assms(2) by simp
  then show "((a * 65536 + b * 256 + c) div 2 ^ 8) mod 256 = b"
    using d8 by simp
  have "(c + (a * 256 + b) * 256) mod 256 = c"
    using assms(3) by (simp only: mod_mult_self1 mod_less)
  then show "((a * 65536 + b * 256 + c) div 2 ^ 0) mod 256 = c"
    by (simp only: r power_0 div_by_1)
qed

lemma triple_less:
  assumes "a < 256" "b < 256" "c < (256::nat)"
  shows "a * 65536 + b * 256 + c < 16777216"
  using assms by linarith

lemma decode_encode_quantum:
  fixes a b c :: char
  defines "val \<equiv> (of_char a :: nat) * 65536 + of_char b * 256 + of_char c"
  shows "byteAt (quantumVal ((val div 262144) mod 64) ((val div 4096) mod 64)
            ((val div 64) mod 64) (val mod 64)) 16 = a"
    and "byteAt (quantumVal ((val div 262144) mod 64) ((val div 4096) mod 64)
            ((val div 64) mod 64) (val mod 64)) 8 = b"
    and "byteAt (quantumVal ((val div 262144) mod 64) ((val div 4096) mod 64)
            ((val div 64) mod 64) (val mod 64)) 0 = c"
proof -
  have lt: "(of_char a :: nat) < 256" "(of_char b :: nat) < 256" "(of_char c :: nat) < 256"
    by (rule nat_of_char_less_256)+
  have v: "val < 16777216" unfolding val_def by (rule triple_less [OF lt])
  note q = quantumVal_sextets [OF v]
  note bt = bytes_of_triple [OF lt, folded val_def]
  show "byteAt (quantumVal ((val div 262144) mod 64) ((val div 4096) mod 64)
            ((val div 64) mod 64) (val mod 64)) 16 = a"
    unfolding q byteAt_def bt by simp
  show "byteAt (quantumVal ((val div 262144) mod 64) ((val div 4096) mod 64)
            ((val div 64) mod 64) (val mod 64)) 8 = b"
    unfolding q byteAt_def bt by simp
  show "byteAt (quantumVal ((val div 262144) mod 64) ((val div 4096) mod 64)
            ((val div 64) mod 64) (val mod 64)) 0 = c"
    unfolding q byteAt_def bt by simp
qed

lemma decodeQuanta_EncodeToString: "decodeQuanta (EncodeToString bs) = Inr bs"
proof (induction bs rule: EncodeToString.induct)
  case 1
  show ?case by simp
next
  case (2 a)
  define val where "val = (of_char a :: nat) * 65536 + of_char (CHR 0x00) * 256 + of_char (CHR 0x00)"
  have v: "val = of_char a * 65536" by (simp add: val_def)
  have z: "(val div 64) mod 64 = 0" "val mod 64 = 0" by (simp_all add: v)
  from decode_encode_quantum(1) [of a "CHR 0x00" "CHR 0x00", folded val_def]
  have "byteAt (quantumVal ((val div 262144) mod 64) ((val div 4096) mod 64) 0 0) 16 = a"
    by (simp add: z)
  then show ?case
    by (simp add: Let_def decodeMap_sextet decodeMap_pad v)
next
  case (3 a b)
  define val where "val = (of_char a :: nat) * 65536 + of_char b * 256 + of_char (CHR 0x00)"
  have v: "val = of_char a * 65536 + of_char b * 256" by (simp add: val_def)
  have z: "val mod 64 = 0" by (simp add: v)
  from decode_encode_quantum(1,2) [of a b "CHR 0x00", folded val_def]
  have "byteAt (quantumVal ((val div 262144) mod 64) ((val div 4096) mod 64) ((val div 64) mod 64) 0) 16 = a"
       "byteAt (quantumVal ((val div 262144) mod 64) ((val div 4096) mod 64) ((val div 64) mod 64) 0) 8 = b"
    by (simp_all add: z)
  then show ?case
    by (simp add: Let_def decodeMap_sextet decodeMap_pad v)
next
  case (4 a b c rest)
  define val where "val = (of_char a :: nat) * 65536 + of_char b * 256 + of_char c"
  note q = decode_encode_quantum [of a b c, folded val_def]
  show ?case
    using "4.IH" q by (simp add: Let_def decodeMap_sextet val_def)
qed

lemma EncodeToString_no_newline:
  "filter (\<lambda>c. \<not> isNewline c) (EncodeToString bs) = EncodeToString bs"
  by (induction bs rule: EncodeToString.induct)
     (simp_all add: Let_def newline_not_alphabet sextet_alphabet pad_not_newline)

lemma DecodeString_EncodeToString: "DecodeString (EncodeToString bs) = Inr bs"
  by (simp add: DecodeString_def EncodeToString_no_newline decodeQuanta_EncodeToString)

subsection \<open>State that the helpers leave alone\<close>

lemma logHashError_fields [simp]:
  "cfg (logHashError a e) = cfg a" "cache (logHashError a e) = cache a"
  "requestStorage (logHashError a e) = requestStorage a"
  "ignoredItems (logHashError a e) = ignoredItems a"
  "processedItems (logHashError a e) = processedItems a"
  by (simp_all add: logHashError_def split: option.splits)

lemma logDebugf_fields [simp]:
  "cfg (logDebugf f s a) = cfg a" "cache (logDebugf f s a) = cache a"
  "requestStorage (logDebugf f s a) = requestStorage a"
  "ignoredItems (logDebugf f s a) = ignoredItems a"
  "processedItems (logDebugf f s a) = processedItems a"
  by (simp_all add: logDebugf_def)

lemma logRequest_fields [simp]:
  "cfg (logRequest a r) = cfg a" "cache (logRequest a r) = cache a"
  "requestStorage (logRequest a r) = requestStorage a"
  "ignoredItems (logRequest a r) = ignoredItems a"
  "processedItems (logRequest a r) = processedItems a"
  by (simp_all add: logRequest_def)

lemma validateCache_fields [simp]:
  "cfg (snd (validateCache d a k)) = cfg a"
  "requestStorage (snd (validateCache d a k)) = requestStorage a"
  "ignoredItems (snd (validateCache d a k)) = ignoredItems a"
  "processedItems (snd (validateCache d a k)) = processedItems a"
  "logged (snd (validateCache d a k)) = logged a"
  by (simp_all add: validateCache_def Let_def)

lemma validateCache_on:
  "0 < sint (UrlCacheExpiration (cfg a)) \<Longrightarrow>
   fst (validateCache d a k) =
     fst (fst (cacheIncr d k
       (if fst (cacheGet d k (cache a)) = 0
        then cacheSet d k (seconds (UrlCacheExpiration (cfg a))) (cache a) else cache a)))"
  by (simp add: validateCache_def Let_def)

lemma apiHandler_reaches_decide:
  assumes "Atoi (projectIdVar r) = Inr pid"
      and "IsValidProjectAndPublicKey d pid (sentry_key (getSentryKeyAndSecret d r))"
      and "snd (getRequestBody r) = None"
  shows "apiHandler d a w r =
           decide d
             (logDebugf ''Origin URL: %s'' (''http://localhost:2222'' @ RequestURI r)
               (logDebugf ''Cache Key: %s''
                  (projectIdVar r @ fst (HashForGrouping d (fst (getRequestBody r))))
                  (logHashError (logRequest a r)
                     (snd (HashForGrouping d (fst (getRequestBody r)))))))
             w r pid (projectIdVar r @ fst (HashForGrouping d (fst (getRequestBody r))))
             (''http://localhost:2222'' @ RequestURI r) (fst (getRequestBody r))"
  using assms by (cases "getRequestBody r") (simp add: apiHandler_def Let_def)

subsection \<open>What the handler does once a request reaches the decision\<close>

lemma validateCache_cong:
  assumes "cfg a = cfg b" "cache a = cache b"
  shows "fst (validateCache d a k) = fst (validateCache d b k)"
    and "cache (snd (validateCache d a k)) = cache (snd (validateCache d b k))"
  using assms by (simp_all add: validateCache_def Let_def)

lemma logged_logs:
  "logged (logDebugf f s a) = logged a @ [LogDebugf f s]"
  "logged (logRequest a r) = logged a @ [LogInfo (RemoteAddr r @ '' '' @ Method r @ '' '' @ URLPath r)]"
  "logged (logHashError a e) = logged a @
     (case e of None \<Rightarrow> [] | Some err \<Rightarrow> [LogErrorf ''Unable to calculate a hash for the request: %s'' err])"
  by (simp_all add: logDebugf_def logRequest_def logHashError_def split: option.splits)

lemma apiHandler_outcome:
  assumes "Atoi (projectIdVar r) = Inr pid"
      and "IsValidProjectAndPublicKey d pid (sentry_key (getSentryKeyAndSecret d r))"
      and "snd (getRequestBody r) = None"
      and "key = projectIdVar r @ fst (HashForGrouping d (fst (getRequestBody r)))"
      and "c = fst (validateCache d a key)"
  shows "cfg (fst (apiHandler d a w r)) = cfg a"
    and "cache (fst (apiHandler d a w r)) = cache (snd (validateCache d a key))"
    and "statusTag (snd (apiHandler d a w r)) =
           Some (if sint (MaxCacheUses (cfg a)) < sint c then ''IGNORED'' else ''PROCESSED'')"
    and "header (snd (apiHandler d a w r)) ''X-CYCLOPS-CACHE-COUNT'' = Some (FormatInt c)"
    and "status w = None \<Longrightarrow> status (snd (apiHandler d a w r)) = Some StatusNoContent"
    and "ignoredItems (fst (apiHandler d a w r)) =
           (if sint (MaxCacheUses (cfg a)) < sint c then ignoredItems a + 1 else ignoredItems a)"
    and "processedItems (fst (apiHandler d a w r)) =
           (if sint (MaxCacheUses (cfg a)) < sint c then processedItems a else processedItems a + 1)"
    and "requestStorage (fst (apiHandler d a w r)) =
           requestStorage a @
             (if sint (MaxCacheUses (cfg a)) < sint c then [] else [messageOf pid r])"
    and "logged (fst (apiHandler d a w r)) =
           logged a @ [LogInfo (RemoteAddr r @ '' '' @ Method r @ '' '' @ URLPath r)]
           @ (case snd (HashForGrouping d (fst (getRequestBody r))) of
                None \<Rightarrow> []
              | Some err \<Rightarrow> [LogErrorf ''Unable to calculate a hash for the request: %s'' err])
           @ [LogDebugf ''Cache Key: %s'' key,
              LogDebugf ''Origin URL: %s'' (''http://localhost:2222'' @ RequestURI r)]"
proof -
  define u where "u = ''http://localhost:2222'' @ RequestURI r"
  define a3 where "a3 =
    logDebugf ''Origin URL: %s'' u
      (logDebugf ''Cache Key: %s'' key
        (logHashError (logRequest a r) (snd (HashForGrouping d (fst (getRequestBody r))))))"
  have run: "apiHandler d a w r = decide d a3 w r pid key u (fst (getRequestBody r))"
    unfolding a3_def u_def assms(4) by (rule apiHandler_reaches_decide [OF assms(1-3)])
  have same: "cfg a3 = cfg a" "cache a3 = cache a" "ignoredItems a3 = ignoredItems a"
    "processedItems a3 = processedItems a" "requestStorage a3 = requestStorage a"
    by (simp_all add: a3_def)
  have lg: "logged a3 = logged a @ [LogInfo (RemoteAddr r @ '' '' @ Method r @ '' '' @ URLPath r)]
           @ (case snd (HashForGrouping d (fst (getRequestBody r))) of
                None \<Rightarrow> []
              | Some err \<Rightarrow> [LogErrorf ''Unable to calculate a hash for the request: %s'' err])
           @ [LogDebugf ''Cache Key: %s'' key, LogDebugf ''Origin URL: %s'' u]"
    unfolding a3_def by (simp only: logged_logs append_assoc append.simps)
  have vc: "fst (validateCache d a3 key) = c"
    "cache (snd (validateCache d a3 key)) = cache (snd (validateCache d a key))"
    using validateCache_cong [of a3 a d key] by (simp_all add: same assms(5))
  show "cfg (fst (apiHandler d a w r)) = cfg a"
    by (simp add: run decide_def Let_def vc same processRequest_def)
  show "cache (fst (apiHandler d a w r)) = cache (snd (validateCache d a key))"
    by (simp add: run decide_def Let_def vc same processRequest_def)
  show "statusTag (snd (apiHandler d a w r)) =
           Some (if sint (MaxCacheUses (cfg a)) < sint c then ''IGNORED'' else ''PROCESSED'')"
    by (simp add: run decide_def Let_def vc same statusTag_def WriteHeader_def HeaderSet_def)
  show "header (snd (apiHandler d a w r)) ''X-CYCLOPS-CACHE-COUNT'' = Some (FormatInt c)"
    by (simp add: run decide_def Let_def vc same WriteHeader_def HeaderSet_def)
  show "status w = None \<Longrightarrow> status (snd (apiHandler d a w r)) = Some StatusNoContent"
    by (simp add: run decide_def Let_def vc same WriteHeader_def HeaderSet_def)
  show "ignoredItems (fst (apiHandler d a w r)) =
           (if sint (MaxCacheUses (cfg a)) < sint c then ignoredItems a + 1 else ignoredItems a)"
    by (simp add: run decide_def Let_def vc same processRequest_def)
  show "processedItems (fst (apiHandler d a w r)) =
           (if sint (MaxCacheUses (cfg a)) < sint c then processedItems a else processedItems a + 1)"
    by (simp add: run decide_def Let_def vc same processRequest_def)
  show "requestStorage (fst (apiHandler d a w r)) =
           requestStorage a @
             (if sint (MaxCacheUses (cfg a)) < sint c then [] else [messageOf pid r])"
    by (simp add: run decide_def Let_def vc same processRequest_def messageOf_def u_def)
  show "logged (fst (apiHandler d a w r)) =
           logged a @ [LogInfo (RemoteAddr r @ '' '' @ Method r @ '' '' @ URLPath r)]
           @ (case snd (HashForGrouping d (fst (getRequestBody r))) of
                None \<Rightarrow> []
              | Some err \<Rightarrow> [LogErrorf ''Unable to calculate a hash for the request: %s'' err])
           @ [LogDebugf ''Cache Key: %s'' key,
              LogDebugf ''Origin URL: %s'' (''http://localhost:2222'' @ RequestURI r)]"
    using lg by (simp add: run decide_def Let_def vc same processRequest_def u_def)
qed

subsection \<open>The handler on the store of the spec\<close>

lemma storeDeps_fields [simp]:
  "HashForGrouping (storeDeps h p v) = h"
  "ParseList (storeDeps h p v) = p"
  "cacheGet (storeDeps h p v) = storeGet"
  "cacheSet (storeDeps h p v) = storeSetIfAbsent"
  "cacheIncr (storeDeps h p v) = storeIncrementAndGet"
  "IsValidProjectAndPublicKey (storeDeps h p v) = v"
  by (simp_all add: storeDeps_def)

lemma validateCache_store_available:
  assumes "0 < sint (UrlCacheExpiration (cfg a))" "available (cache a)"
  shows "validateCache (storeDeps h p v) a k =
           (countOf (cache a) k + 1,
            a\<lparr>cache := (cache a)\<lparr>counts := (counts (cache a))(k \<mapsto> countOf (cache a) k + 1)\<rparr>\<rparr>)"
  using assms
  by (cases "counts (cache a) k")
     (simp_all add: validateCache_def Let_def storeGet_def storeSetIfAbsent_def
        storeIncrementAndGet_def countOf_def)

lemma validateCache_store_unavailable:
  assumes "\<not> available (cache a)"
  shows "validateCache (storeDeps h p v) a k = (0, a)"
  using assms
  by (simp add: validateCache_def Let_def storeGet_def storeSetIfAbsent_def
        storeIncrementAndGet_def)

text \<open>After the entry of a key has expired, the next count for it is 1 again.\<close>

lemma validateCache_after_expire:
  assumes "0 < sint (UrlCacheExpiration (cfg a))" "available (cache a)"
  shows "fst (validateCache (storeDeps h p v) (a\<lparr>cache := expire k (cache a)\<rparr>) k) = 1"
  using validateCache_store_available [of "a\<lparr>cache := expire k (cache a)\<rparr>" h p v k] assms
  by (simp add: expire_def countOf_def)

lemma sint_of_nat_small:
  assumes "n < 2 ^ 63"
  shows "sint (of_nat n :: int64) = int n"
proof -
  have a: "int n < 2 ^ 63" using assms by simp
  have b: "- (2 ^ 63) \<le> int n" by (rule order_trans [of _ 0]) simp_all
  have "signed_take_bit 63 (int n) = int n"
    using b a by (rule signed_take_bit_int_eq_self)
  moreover have "sint (of_nat n :: int64) = signed_take_bit 63 (int n)"
    using sint_sbintrunc' [where 'a = 64, of "int n"] by simp
  ultimately show ?thesis by simp
qed

lemma apiHandler_store_step:
  fixes a :: "Store Api"
  assumes "Atoi (projectIdVar r) = Inr pid"
      and "v pid (sentry_key (getSentryKeyAndSecret (storeDeps h p v) r))"
      and "snd (getRequestBody r) = None"
      and "0 < sint (UrlCacheExpiration (cfg a))"
      and "available (cache a)"
      and "key = projectIdVar r @ fst (h (fst (getRequestBody r)))"
      and "c = countOf (cache a) key + 1"
  shows "cfg (fst (apiHandler (storeDeps h p v) a newResponseWriter r)) = cfg a"
    and "cache (fst (apiHandler (storeDeps h p v) a newResponseWriter r)) =
           (cache a)\<lparr>counts := (counts (cache a))(key \<mapsto> c)\<rparr>"
    and "statusTag (snd (apiHandler (storeDeps h p v) a newResponseWriter r)) =
           Some (if sint (MaxCacheUses (cfg a)) < sint c then ''IGNORED'' else ''PROCESSED'')"
    and "requestStorage (fst (apiHandler (storeDeps h p v) a newResponseWriter r)) =
           requestStorage a @ (if sint (MaxCacheUses (cfg a)) < sint c then [] else [messageOf pid r])"
proof -
  let ?d = "storeDeps h p v"
  define a3 where "a3 =
    logDebugf ''Origin URL: %s'' (''http://localhost:2222'' @ RequestURI r)
      (logDebugf ''Cache Key: %s'' key
        (logHashError (logRequest a r) (snd (HashForGrouping ?d (fst (getRequestBody r))))))"
  have run: "apiHandler ?d a newResponseWriter r =
      decide ?d a3 newResponseWriter r pid key (''http://localhost:2222'' @ RequestURI r)
        (fst (getRequestBody r))"
    unfolding a3_def assms(6) using apiHandler_reaches_decide [of r pid ?d a newResponseWriter] assms(1-3)
    by simp
  have same: "cfg a3 = cfg a" "cache a3 = cache a" "requestStorage a3 = requestStorage a"
    by (simp_all add: a3_def)
  have vc: "validateCache ?d a3 key =
      (c, a3\<lparr>cache := (cache a)\<lparr>counts := (counts (cache a))(key \<mapsto> c)\<rparr>\<rparr>)"
    using validateCache_store_available [where a = a3 and k = key and h = h and p = p and v = v] assms(4,5,7)
    by (simp add: same)
  show "cfg (fst (apiHandler ?d a newResponseWriter r)) = cfg a"
    by (simp add: run decide_def Let_def vc same processRequest_def)
  show "cache (fst (apiHandler ?d a newResponseWriter r)) =
           (cache a)\<lparr>counts := (counts (cache a))(key \<mapsto> c)\<rparr>"
    by (simp add: run decide_def Let_def vc same processRequest_def)
  show "statusTag (snd (apiHandler ?d a newResponseWriter r)) =
           Some (if sint (MaxCacheUses (cfg a)) < sint c then ''IGNORED'' else ''PROCESSED'')"
    by (simp add: run decide_def Let_def vc same statusTag_def WriteHeader_def HeaderSet_def)
  show "requestStorage (fst (apiHandler ?d a newResponseWriter r)) =
           requestStorage a @ (if sint (MaxCacheUses (cfg a)) < sint c then [] else [messageOf pid r])"
    by (simp add: run decide_def Let_def vc same processRequest_def messageOf_def)
qed

lemma submitAll_store:
  fixes a :: "Store Api"
  assumes "Atoi pstr = Inr pid"
      and "\<forall>r \<in> set rs. projectIdVar r = pstr \<and> getRequestBody r = (body, None)
             \<and> v pid (sentry_key (getSentryKeyAndSecret (storeDeps h p v) r))"
      and "0 < sint (UrlCacheExpiration (cfg a))"
      and "available (cache a)"
      and "countOf (cache a) (pstr @ fst (h body)) = of_nat n"
      and "n + length rs < 2 ^ 63"
  shows "map statusTag (snd (submitAll (storeDeps h p v) a rs)) =
           replicate (min (length rs) (nat (sint (MaxCacheUses (cfg a))) - n)) (Some ''PROCESSED'')
           @ replicate (length rs - min (length rs) (nat (sint (MaxCacheUses (cfg a))) - n))
               (Some ''IGNORED'')
       \<and> requestStorage (fst (submitAll (storeDeps h p v) a rs)) =
           requestStorage a @
             map (messageOf pid) (take (nat (sint (MaxCacheUses (cfg a))) - n) rs)"
  using assms(2-)
proof (induction rs arbitrary: a n)
  case Nil
  then show ?case by simp
next
  case (Cons r rs)
  let ?d = "storeDeps h p v"
  let ?key = "pstr @ fst (h body)"
  let ?a1 = "fst (apiHandler ?d a newResponseWriter r)"
  let ?w1 = "snd (apiHandler ?d a newResponseWriter r)"
  let ?T = "sint (MaxCacheUses (cfg a))"
  have r: "projectIdVar r = pstr" "getRequestBody r = (body, None)"
    "v pid (sentry_key (getSentryKeyAndSecret ?d r))"
    using Cons.prems(1) by simp_all
  define c :: int64 where "c = of_nat (Suc n)"
  have c: "c = countOf (cache a) ?key + 1"
    using Cons.prems(4) by (simp add: c_def)
  have key: "?key = projectIdVar r @ fst (h (fst (getRequestBody r)))"
    by (simp add: r)
  have snd_body: "snd (getRequestBody r) = None" by (simp add: r)
  have atoi: "Atoi (projectIdVar r) = Inr pid" using assms(1) by (simp add: r)
  note step = apiHandler_store_step [where v = v and h = h and p = p and r = r and pid = pid
      and a = a and key = ?key and c = c, OF atoi r(3) snd_body Cons.prems(2,3) key c]
  have sn: "sint c = int (Suc n)"
    unfolding c_def using Cons.prems(5) by (intro sint_of_nat_small) simp
  have cnt1: "countOf (cache ?a1) ?key = of_nat (Suc n)"
    by (simp add: step(2) countOf_def c_def)
  have av1: "available (cache ?a1)"
    using Cons.prems(3) by (simp add: step(2))
  have rest: "\<forall>r \<in> set rs. projectIdVar r = pstr \<and> getRequestBody r = (body, None)
             \<and> v pid (sentry_key (getSentryKeyAndSecret ?d r))"
    using Cons.prems(1) by simp
  have ttl1: "0 < sint (UrlCacheExpiration (cfg ?a1))"
    using Cons.prems(2) by (simp add: step(1))
  have len1: "Suc n + length rs < 2 ^ 63" using Cons.prems(5) by simp
  have IH: "map statusTag (snd (submitAll ?d ?a1 rs)) =
           replicate (min (length rs) (nat ?T - Suc n)) (Some ''PROCESSED'')
           @ replicate (length rs - min (length rs) (nat ?T - Suc n)) (Some ''IGNORED'')
       \<and> requestStorage (fst (submitAll ?d ?a1 rs)) =
           requestStorage ?a1 @ map (messageOf pid) (take (nat ?T - Suc n) rs)"
    using Cons.IH [OF rest ttl1 av1 cnt1 len1] by (simp add: step(1))
  show ?case
  proof (cases "?T < int (Suc n)")
    case True
    then have z: "nat ?T - n = 0" "nat ?T - Suc n = 0" by linarith+
    show ?thesis using IH True by (simp add: Let_def step(3,4) sn z)
  next
    case False
    then have z: "nat ?T - n = Suc (nat ?T - Suc n)" by linarith
    show ?thesis using IH False by (simp add: Let_def step(3,4) sn z)
  qed
qed

subsection \<open>Evaluation of the sample inputs\<close>

lemma Atoi_7: "Atoi ''7'' = Inr 7"
  by (simp add: Atoi_def isDigit_def digitVal_def)

lemma projectIdVar_sample [simp]: "projectIdVar (sampleRequest b) = ''7''"
  by (simp add: projectIdVar_def sampleRequest_def)

lemma DecodeString_braces: "DecodeString ''{}'' = Inl CorruptInputError"
  by (simp add: DecodeString_def isNewline_def)

lemma getRequestBody_braces: "getRequestBody (sampleRequest (''{}'', None)) = (''{}'', None)"
  by (simp add: getRequestBody_def sampleRequest_def DecodeString_braces)

lemma sampleDeps_fields [simp]:
  "HashForGrouping sampleDeps = hashBody"
  "ParseList sampleDeps = parseValues"
  "cacheGet sampleDeps = storeGet"
  "cacheSet sampleDeps = storeSetIfAbsent"
  "cacheIncr sampleDeps = storeIncrementAndGet"
  "IsValidProjectAndPublicKey sampleDeps = anyProject"
  by (simp_all add: sampleDeps_def storeDeps_def)

lemma sampleApi_fields [simp]:
  "cfg (sampleApi t m s) = \<lparr>UrlCacheExpiration = t, MaxCacheUses = m\<rparr>"
  "cache (sampleApi t m s) = s"
  "requestStorage (sampleApi t m s) = []"
  "ignoredItems (sampleApi t m s) = 0"
  "processedItems (sampleApi t m s) = 0"
  "logged (sampleApi t m s) = []"
  by (simp_all add: sampleApi_def)

lemma FormatInt_0: "FormatInt 0 = ''0''"
  by (simp add: FormatInt_def natDigits.simps char_of_def bit_Suc_0_iff)

lemma validateCache_off:
  "\<not> 0 < sint (UrlCacheExpiration (cfg a)) \<Longrightarrow> validateCache d a url = (0, a)"
  by (simp add: validateCache_def)

lemma DecodeString_brace_a: "DecodeString ''{a}'' = Inl CorruptInputError"
  by (simp add: DecodeString_def isNewline_def decodeMap_def encodeStd_def)

lemma DecodeString_brace_b: "DecodeString ''{b}'' = Inl CorruptInputError"
  by (simp add: DecodeString_def isNewline_def decodeMap_def encodeStd_def)

lemma getRequestBody_plain:
  "DecodeString raw = Inl e \<Longrightarrow> getRequestBody (sampleRequest (raw, None)) = (raw, None)"
  by (simp add: getRequestBody_def sampleRequest_def)

lemma sample_step:
  assumes "getRequestBody (sampleRequest (raw, None)) = (body, None)" "0 < sint ttl" "available s"
  shows "statusTag (snd (apiHandler (storeDeps h p anyProject) (sampleApi ttl m s)
            newResponseWriter (sampleRequest (raw, None)))) =
           Some (if sint m < sint (countOf s (''7'' @ fst (h body)) + 1)
                 then ''IGNORED'' else ''PROCESSED'')"
    and "requestStorage (fst (apiHandler (storeDeps h p anyProject) (sampleApi ttl m s)
            newResponseWriter (sampleRequest (raw, None)))) =
           (if sint m < sint (countOf s (''7'' @ fst (h body)) + 1)
            then [] else [messageOf 7 (sampleRequest (raw, None))])"
    and "cache (fst (apiHandler (storeDeps h p anyProject) (sampleApi ttl m s)
            newResponseWriter (sampleRequest (raw, None)))) =
           s\<lparr>counts := (counts s)(''7'' @ fst (h body) \<mapsto> countOf s (''7'' @ fst (h body)) + 1)\<rparr>"
proof -
  let ?r = "sampleRequest (raw, None)"
  let ?a = "sampleApi ttl m s"
  note b = assms(1)
  have h1: "Atoi (projectIdVar ?r) = Inr 7" by (simp add: Atoi_7)
  have h2: "anyProject 7 (sentry_key (getSentryKeyAndSecret (storeDeps h p anyProject) ?r))"
    by (simp add: anyProject_def)
  have h3: "snd (getRequestBody ?r) = None" by (simp add: b)
  have h4: "0 < sint (UrlCacheExpiration (cfg ?a))" using assms(2) by simp
  have h5: "available (cache ?a)" using assms(3) by simp
  have h6: "''7'' @ fst (h body) = projectIdVar ?r @ fst (h (fst (getRequestBody ?r)))"
    by (simp add: b)
  have h7: "countOf s (''7'' @ fst (h body)) + 1 = countOf (cache ?a) (''7'' @ fst (h body)) + 1"
    by simp
  note step = apiHandler_store_step [where v = anyProject and h = h and p = p,
      OF h1 h2 h3 h4 h5 h6 h7]
  show "statusTag (snd (apiHandler (storeDeps h p anyProject) ?a newResponseWriter ?r)) =
           Some (if sint m < sint (countOf s (''7'' @ fst (h body)) + 1)
                 then ''IGNORED'' else ''PROCESSED'')"
    using step(3) by simp
  show "requestStorage (fst (apiHandler (storeDeps h p anyProject) ?a newResponseWriter ?r)) =
           (if sint m < sint (countOf s (''7'' @ fst (h body)) + 1)
            then [] else [messageOf 7 ?r])"
    using step(4) by simp
  show "cache (fst (apiHandler (storeDeps h p anyProject) ?a newResponseWriter ?r)) =
           s\<lparr>counts := (counts s)(''7'' @ fst (h body) \<mapsto> countOf s (''7'' @ fst (h body)) + 1)\<rparr>"
    using step(2) by simp
qed

lemma sample_off:
  assumes "DecodeString raw = Inl e" "\<not> 0 < sint ttl \<or> \<not> available s"
  shows "statusTag (snd (apiHandler (storeDeps h p anyProject) (sampleApi ttl m s)
            newResponseWriter (sampleRequest (raw, None)))) =
           Some (if sint m < 0 then ''IGNORED'' else ''PROCESSED'')"
    and "requestStorage (fst (apiHandler (storeDeps h p anyProject) (sampleApi ttl m s)
            newResponseWriter (sampleRequest (raw, None)))) =
           (if sint m < 0 then [] else [messageOf 7 (sampleRequest (raw, None))])"
proof -
  let ?r = "sampleRequest (raw, None)"
  let ?a = "sampleApi ttl m s"
  let ?d = "storeDeps h p anyProject"
  have b: "getRequestBody ?r = (raw, None)" using assms(1) by (rule getRequestBody_plain)
  have h1: "Atoi (projectIdVar ?r) = Inr 7" by (simp add: Atoi_7)
  have h2: "IsValidProjectAndPublicKey ?d 7 (sentry_key (getSentryKeyAndSecret ?d ?r))"
    by (simp add: anyProject_def)
  have h3: "snd (getRequestBody ?r) = None" by (simp add: b)
  have vc: "validateCache ?d ?a k = (0, ?a)" for k
    using assms(2) validateCache_off [of ?a ?d k]
      validateCache_store_unavailable [of ?a h p anyProject k] by auto
  have h5: "0 = fst (validateCache ?d ?a (projectIdVar ?r @ fst (HashForGrouping ?d (fst (getRequestBody ?r)))))"
    by (simp add: vc)
  note out = apiHandler_outcome [OF h1 h2 h3 refl h5]
  show "statusTag (snd (apiHandler ?d ?a newResponseWriter ?r)) =
           Some (if sint m < 0 then ''IGNORED'' else ''PROCESSED'')"
    using out(3) [of newResponseWriter] by simp
  show "requestStorage (fst (apiHandler ?d ?a newResponseWriter ?r)) =
           (if sint m < 0 then [] else [messageOf 7 ?r])"
    using out(8) [of newResponseWriter] by simp
qed

subsection \<open>The loop over the header list\<close>

lemma headerField_Nil [simp]: "headerField f [] = None"
  by (simp add: headerField_def)

lemma headerField_snoc:
  "headerField f (vs @ [v]) =
     (if CHR ''='' \<in> set v \<and> authField v = f then Some (authValue v) else headerField f vs)"
  by (simp add: headerField_def Let_def)

lemma foldl_authStep:
  "foldl authStep x vs =
     \<lparr>sentry_key = (case headerField ''sentry_key'' vs of None \<Rightarrow> sentry_key x | Some k \<Rightarrow> k),
      sentry_secret =
        (case headerField ''sentry_secret'' vs of None \<Rightarrow> sentry_secret x | Some s \<Rightarrow> s)\<rparr>"
proof (induction vs rule: rev_induct)
  case Nil
  show ?case by simp
next
  case (snoc v vs)
  let ?y = "\<lparr>sentry_key = (case headerField ''sentry_key'' vs of None \<Rightarrow> sentry_key x | Some k \<Rightarrow> k),
      sentry_secret =
        (case headerField ''sentry_secret'' vs of None \<Rightarrow> sentry_secret x | Some s \<Rightarrow> s)\<rparr>"
  have "foldl authStep x (vs @ [v]) = authStep (foldl authStep x vs) v" by simp
  also have "\<dots> = authStep ?y v" by (simp only: snoc.IH)
  also have "\<dots> =
     \<lparr>sentry_key = (case headerField ''sentry_key'' (vs @ [v]) of None \<Rightarrow> sentry_key x | Some k \<Rightarrow> k),
      sentry_secret =
        (case headerField ''sentry_secret'' (vs @ [v]) of None \<Rightarrow> sentry_secret x | Some s \<Rightarrow> s)\<rparr>"
    by (simp add: authStep_def headerField_snoc)
  finally show ?case .
qed

lemma auth_header_overrides_query:
  "getSentryKeyAndSecret sampleDeps
     ((sampleRequest ([], None))
        \<lparr>URLQuery := [''sentry_key'' \<mapsto> [''k1'']],
         Header := [''X-Sentry-Auth'' \<mapsto> [''sentry_key=k2'']]\<rparr>)
   = \<lparr>sentry_key = ''k2'', sentry_secret = []\<rparr>"
  by (simp add: getSentryKeyAndSecret_def ValuesGet_def sampleRequest_def parseValues_def
        authStep_def authField_def authValue_def)

lemma auth_secret_alone_keeps_query_key:
  "getSentryKeyAndSecret sampleDeps
     ((sampleRequest ([], None))
        \<lparr>URLQuery := [''sentry_key'' \<mapsto> [''k1'']],
         Header := [''X-Sentry-Auth'' \<mapsto> [''sentry_secret=s1'', ''sentry_secret=s2'']]\<rparr>)
   = \<lparr>sentry_key = ''k1'', sentry_secret = ''s2''\<rparr>"
  by (simp add: getSentryKeyAndSecret_def ValuesGet_def sampleRequest_def parseValues_def
        authStep_def authField_def authValue_def)

subsection \<open>The body as the handler reads it\<close>

lemma DecodeString_ok_iff: "(\<exists>bs. DecodeString s = Inr bs) \<longleftrightarrow> validStdBase64 s"
  by (simp add: DecodeString_def validStdBase64_def decodeQuanta_ok_iff)

lemma DecodeString_abcd: "DecodeString ''abcd'' = Inr [CHR ''i'', CHR 0xB7, CHR 0x1D]"
  by (simp add: DecodeString_def isNewline_def decodeMap_def encodeStd_def padChar_def
      byteAt_def quantumVal_def char_of_def bit_Suc_0_iff)

lemma valid_abcd: "validStdBase64 ''abcd''"
  using DecodeString_ok_iff [of "''abcd''"] by (simp add: DecodeString_abcd)

lemma getRequestBody_abcd:
  "getRequestBody (sampleRequest (''abcd'', None)) = ([CHR ''i'', CHR 0xB7, CHR 0x1D], None)"
  by (simp add: getRequestBody_def sampleRequest_def DecodeString_abcd)

lemma getRequestBody_cases:
  assumes "Body r = (raw, None)"
  shows "getRequestBody r = ((case DecodeString raw of Inr dec \<Rightarrow> dec | Inl e \<Rightarrow> raw), None)"
  using assms by (simp add: getRequestBody_def split: sum.splits)

lemma EncodeToString_json: 
  "EncodeToString [CHR ''{'', CHR 0x22, CHR ''a'', CHR 0x22, CHR '':'', CHR ''1'', CHR ''}'']
     = ''eyJhIjoxfQ==''"
  by (simp add: sextet_def encodeStd_def padChar_def)

lemma EncodeToString_abcd: "EncodeToString ''abcd'' = ''YWJjZA==''"
  by (simp add: sextet_def encodeStd_def padChar_def)

lemma getRequestBody_encoded:
  assumes "Body r = (EncodeToString plain, None)"
  shows "getRequestBody r = (plain, None)"
  by (simp add: getRequestBody_cases [OF assms] DecodeString_EncodeToString)

lemma getRequestBody_invalid:
  assumes "Body r = (raw, None)" "\<not> validStdBase64 raw"
  shows "getRequestBody r = (raw, None)"
proof -
  have "\<nexists>bs. DecodeString raw = Inr bs" using assms(2) DecodeString_ok_iff by blast
  then show ?thesis
    by (cases "DecodeString raw") (simp_all add: getRequestBody_cases [OF assms(1)])
qed

subsection \<open>Interleaved callers on the store of the spec\<close>

text \<open>One caller running alone takes the three steps of \<open>validateCache\<close>.\<close>

lemma callerStep_alone:
  assumes "0 < sint (UrlCacheExpiration (cfg a))"
  shows "\<exists>n c1 c2. callerStep d url (UrlCacheExpiration (cfg a)) AtGet (cache a) = Some (AtSet n, c1)
         \<and> callerStep d url (UrlCacheExpiration (cfg a)) (AtSet n) c1 = Some (AtIncr, c2)
         \<and> callerStep d url (UrlCacheExpiration (cfg a)) AtIncr c2 =
             Some (Done (fst (validateCache d a url)), cache (snd (validateCache d a url)))"
  using assms by (simp add: validateCache_def Let_def)

lemma returnedCounts_update:
  assumes "i < length ps" "returned (ps ! i) = []"
  shows "mset (returnedCounts (ps[i := q])) = mset (returnedCounts ps) + mset (returned q)"
  using assms
proof (induction ps arbitrary: i)
  case Nil
  then show ?case by simp
next
  case (Cons x ps)
  show ?case
  proof (cases i)
    case 0
    then show ?thesis using Cons.prems by (simp add: returnedCounts_def)
  next
    case (Suc j)
    then have "mset (returnedCounts (ps[j := q])) = mset (returnedCounts ps) + mset (returned q)"
      using Cons.IH [of j] Cons.prems by simp
    then show ?thesis using Suc by (simp add: returnedCounts_def)
  qed
qed

lemma firstCounts_Suc: "firstCounts (Suc m) = firstCounts m @ [of_nat (Suc m)]"
  by (simp add: firstCounts_def)

lemma storeInv_step:
  assumes "interleave (storeDeps h p v) url ttl cf cf'" "storeInv url cf"
  shows "storeInv url cf'"
  using assms
proof (induction rule: interleave.induct)
  case (step i ps c p' c')
  let ?m = "length (returnedCounts ps)"
  let ?ps' = "ps[i := p']"
  have inv: "available c" "counts c url = None \<longrightarrow> (\<forall>q \<in> set ps. q = AtGet \<or> q = AtSet 0)"
    "countOf c url = of_nat ?m" "mset (returnedCounts ps) = mset (firstCounts ?m)"
    using step.prems by (simp_all add: storeInv_def Let_def)
  have mem: "ps ! i \<in> set ps" using step.hyps(1) by simp
  have sub: "set ?ps' \<subseteq> insert p' (set ps)" by (rule set_update_subset_insert)
  have "available c'
       \<and> (counts c' url = None \<longrightarrow> (\<forall>q \<in> set ?ps'. q = AtGet \<or> q = AtSet 0))
       \<and> countOf c' url = of_nat (length (returnedCounts ?ps'))
       \<and> mset (returnedCounts ?ps') = mset (firstCounts (length (returnedCounts ?ps')))"
  proof (cases "ps ! i")
    case AtGet
    then have e: "p' = AtSet (fst (storeGet url c))" "c' = c"
      using step.hyps(2) by auto
    have r: "mset (returnedCounts ?ps') = mset (returnedCounts ps)"
      using returnedCounts_update [OF step.hyps(1), of p'] AtGet e by simp
    then have len: "length (returnedCounts ?ps') = ?m"
      by (metis size_mset)
    have p0: "counts c url = None \<longrightarrow> p' = AtSet 0"
      using inv(1) e by (simp add: storeGet_def)
    have A2: "counts c' url = None \<longrightarrow> (\<forall>q \<in> set ?ps'. q = AtGet \<or> q = AtSet 0)"
      using inv(2) sub p0 e(2) by auto
    show ?thesis
      using inv(1,3,4) A2 by (simp add: r len e(2))
  next
    case (AtSet n)
    then have e: "p' = AtIncr" "c' = (if n = 0 then storeSetIfAbsent url (seconds ttl) c else c)"
      using step.hyps(2) by auto
    have r: "mset (returnedCounts ?ps') = mset (returnedCounts ps)"
      using returnedCounts_update [OF step.hyps(1), of p'] AtSet e by simp
    then have len: "length (returnedCounts ?ps') = ?m"
      by (metis size_mset)
    have n0: "counts c url = None \<longrightarrow> n = 0" using inv(2) mem AtSet by auto
    have present: "counts c' url \<noteq> None"
      using n0 inv(1) e by (auto simp: storeSetIfAbsent_def)
    have cnt: "countOf c' url = countOf c url" "available c'"
      using inv(1) e by (auto simp: storeSetIfAbsent_def countOf_def)
    show ?thesis
      using inv(3,4) present cnt by (auto simp: r len)
  next
    case AtIncr
    then have e: "p' = Done (countOf c url + 1)"
      "c' = c\<lparr>counts := (counts c)(url \<mapsto> countOf c url + 1)\<rparr>"
      using step.hyps(2) inv(1) by (auto simp: storeIncrementAndGet_def Let_def countOf_def)
    have r: "mset (returnedCounts ?ps') = mset (returnedCounts ps) + {#countOf c url + 1#}"
      using returnedCounts_update [OF step.hyps(1), of p'] AtIncr e by simp
    then have "size (mset (returnedCounts ?ps')) = Suc ?m" by simp
    then have len: "length (returnedCounts ?ps') = Suc ?m" by (metis size_mset)
    have c1: "countOf c url + 1 = of_nat (Suc ?m)" using inv(3) by simp
    have A4: "mset (returnedCounts ?ps') = mset (firstCounts (Suc ?m))"
      unfolding r c1 firstCounts_Suc using inv(4) by simp
    have A3: "countOf c' url = of_nat (Suc ?m)"
      unfolding e(2) using c1 by (simp add: countOf_def)
    have A1: "available c'" "counts c' url \<noteq> None" unfolding e(2) using inv(1) by simp_all
    show ?thesis
      using A1 A3 A4 by (simp only: len simp_thms)
  next
    case (Done n)
    then show ?thesis using step.hyps(2) by simp
  qed
  then show ?case by (simp add: storeInv_def Let_def)
qed

lemma storeInv_reachable:
  assumes "(interleave (storeDeps h p v) url ttl)\<^sup>*\<^sup>* cf cf'" "storeInv url cf"
  shows "storeInv url cf'"
  using assms by (induction rule: rtranclp_induct) (auto intro: storeInv_step)

lemma interleave_length:
  assumes "(interleave d url ttl)\<^sup>*\<^sup>* cf cf'"
  shows "length (fst cf') = length (fst cf)"
  using assms
proof (induction rule: rtranclp_induct)
  case base
  show ?case by simp
next
  case (step y z)
  then show ?case by (auto elim: interleave.cases)
qed

lemma returnedCounts_all_done:
  "\<forall>q \<in> set ps. isDone q \<Longrightarrow> length (returnedCounts ps) = length ps"
proof (induction ps)
  case Nil
  show ?case by (simp add: returnedCounts_def)
next
  case (Cons q ps)
  then show ?case by (cases q) (simp_all add: returnedCounts_def)
qed

lemma sint_firstCounts:
  assumes "K < 2 ^ 63"
  shows "map sint (firstCounts K) = map int [1..<Suc K]"
proof -
  have "map sint (firstCounts K) = map (\<lambda>k. sint (of_nat (Suc k) :: int64)) [0..<K]"
    by (simp add: firstCounts_def)
  also have "\<dots> = map (\<lambda>k. int (Suc k)) [0..<K]"
  proof (rule map_cong [OF refl])
    fix k assume "k \<in> set [0..<K]"
    then have "Suc k < 2 ^ 63" using assms by simp
    then show "sint (of_nat (Suc k) :: int64) = int (Suc k)" by (rule sint_of_nat_small)
  qed
  also have "\<dots> = map int (map Suc [0..<K])" by simp
  also have "\<dots> = map int [1..<Suc K]" by (simp only: map_Suc_upt One_nat_def)
  finally show ?thesis .
qed

lemma distinct_firstCounts:
  assumes "K < 2 ^ 63"
  shows "distinct (firstCounts K)"
proof -
  have "distinct (map int [1..<Suc K])" by (simp add: distinct_map)
  then have "distinct (map sint (firstCounts K))" by (simp only: sint_firstCounts [OF assms])
  then show ?thesis by (simp only: distinct_map)
qed

lemma interleave_progress:
  assumes "i < length ps" "\<not> isDone (ps ! i)"
  shows "\<exists>cf'. interleave d url ttl (ps, c) cf'"
proof -
  obtain p' c' where "callerStep d url ttl (ps ! i) c = Some (p', c')"
    using assms(2) by (cases "ps ! i") (simp_all add: Let_def)
  from interleave.step [OF assms(1) this] show ?thesis by blast
qed

text \<open>Every step uses up one of the operations that remain, so every interleaved run of
  \<open>K\<close> callers has exactly \<open>3 * K\<close> steps; a caller that has not returned can always
  take its next step (\<open>interleave_progress\<close>), and nothing remains exactly when all
  callers have returned.\<close>

lemma callerStep_remaining:
  "callerStep d url ttl q c = Some (q', c') \<Longrightarrow> Suc (remaining q') = remaining q"
  by (cases q) (auto simp: Let_def)

lemma interleave_remaining:
  assumes "interleave d url ttl cf cf'"
  shows "Suc (sum_list (map remaining (fst cf'))) = sum_list (map remaining (fst cf))"
  using assms
proof (induction rule: interleave.induct)
  case (step i ps c p' c')
  have r: "Suc (remaining p') = remaining (ps ! i)"
    using step.hyps(2) by (rule callerStep_remaining)
  have "sum_list ((map remaining ps)[i := remaining p']) =
          sum_list (map remaining ps) + remaining p' - (map remaining ps) ! i"
    using step.hyps(1) by (simp add: sum_list_update)
  then have "sum_list (map remaining (ps[i := p'])) =
          sum_list (map remaining ps) + remaining p' - remaining (ps ! i)"
    using step.hyps(1) by (simp add: map_update)
  moreover have "remaining (ps ! i) \<le> sum_list (map remaining ps)"
  proof -
    have "remaining (ps ! i) \<in> set (map remaining ps)" using step.hyps(1) by simp
    then show ?thesis by (simp add: member_le_sum_list)
  qed
  ultimately show ?case using r by (simp only: fst_conv)
qed

lemma remaining_zero_iff:
  "sum_list (map remaining ps) = 0 \<longleftrightarrow> (\<forall>q \<in> set ps. isDone q)"
proof (induction ps)
  case Nil
  show ?case by simp
next
  case (Cons q ps)
  then show ?case by (cases q) simp_all
qed


section \<open>The claims\<close>

text \<open>C1. A request whose project id parses, whose project and key are valid and
  whose body is read without error reaches the admission decision. With a positive
  dedup TTL the count is the one \<open>Incr\<close> returns (after \<open>Get\<close> and, on a zero
  reading, \<open>Set\<close>). The response is tagged IGNORED exactly when that count is strictly
  greater, as a signed 64-bit value, than the maximum-uses threshold. In that case the
  ignored counter goes up by one and nothing is put on the delivery queue; otherwise the
  tag is PROCESSED, the processed counter goes up by one and the message is appended to
  the delivery queue. Both outcomes answer 204 No Content and carry the count in
  \<open>X-CYCLOPS-CACHE-COUNT\<close>. This holds for every cache, grouping function and project
  table.\<close>

theorem C1_admission_decision:
  assumes "Atoi (projectIdVar r) = Inr pid"
      and "IsValidProjectAndPublicKey d pid (sentry_key (getSentryKeyAndSecret d r))"
      and "snd (getRequestBody r) = None"
      and "0 < sint (UrlCacheExpiration (cfg a))"
      and "status w = None"
      and "cnt = fst (fst (cacheIncr d (cacheKeyOf d r)
             (if fst (cacheGet d (cacheKeyOf d r) (cache a)) = 0
              then cacheSet d (cacheKeyOf d r) (seconds (UrlCacheExpiration (cfg a))) (cache a)
              else cache a)))"
  shows "(statusTag (snd (apiHandler d a w r)) = Some ''IGNORED'')
           = (sint (MaxCacheUses (cfg a)) < sint cnt)
       \<and> (sint (MaxCacheUses (cfg a)) < sint cnt \<longrightarrow>
            ignoredItems (fst (apiHandler d a w r)) = ignoredItems a + 1
          \<and> processedItems (fst (apiHandler d a w r)) = processedItems a
          \<and> requestStorage (fst (apiHandler d a w r)) = requestStorage a)
       \<and> (\<not> sint (MaxCacheUses (cfg a)) < sint cnt \<longrightarrow>
            statusTag (snd (apiHandler d a w r)) = Some ''PROCESSED''
          \<and> processedItems (fst (apiHandler d a w r)) = processedItems a + 1
          \<and> ignoredItems (fst (apiHandler d a w r)) = ignoredItems a
          \<and> requestStorage (fst (apiHandler d a w r)) = requestStorage a @ [messageOf pid r])
       \<and> header (snd (apiHandler d a w r)) ''X-CYCLOPS-CACHE-COUNT'' = Some (FormatInt cnt)
       \<and> status (snd (apiHandler d a w r)) = Some StatusNoContent"
proof -
  have key: "cacheKeyOf d r = projectIdVar r @ fst (HashForGrouping d (fst (getRequestBody r)))"
    by (simp add: cacheKeyOf_def)
  have c: "cnt = fst (validateCache d a (cacheKeyOf d r))"
    using assms(4) by (simp add: validateCache_on assms(6))
  note out = apiHandler_outcome [OF assms(1,2,3) key c]
  show ?thesis
  proof (cases "sint (MaxCacheUses (cfg a)) < sint cnt")
    case True
    with out(3,4,6,7,8) [of w] out(5) [OF assms(5)] show ?thesis by simp
  next
    case False
    with out(3,4,6,7,8) [of w] out(5) [OF assms(5)] show ?thesis by simp
  qed
qed

theorem C1_admission_decision_witness:
  "statusTag (snd (apiHandler sampleDeps
       (sampleApi 60 1 \<lparr>available = True, counts = [''7{}'' \<mapsto> 1]\<rparr>)
       newResponseWriter (sampleRequest (''{}'', None)))) = Some ''IGNORED''
   \<and> header (snd (apiHandler sampleDeps
       (sampleApi 60 1 \<lparr>available = True, counts = [''7{}'' \<mapsto> 1]\<rparr>)
       newResponseWriter (sampleRequest (''{}'', None)))) ''X-CYCLOPS-CACHE-COUNT'' = Some ''2''
   \<and> ignoredItems (fst (apiHandler sampleDeps
       (sampleApi 60 1 \<lparr>available = True, counts = [''7{}'' \<mapsto> 1]\<rparr>)
       newResponseWriter (sampleRequest (''{}'', None)))) = 1
   \<and> requestStorage (fst (apiHandler sampleDeps
       (sampleApi 60 1 \<lparr>available = True, counts = [''7{}'' \<mapsto> 1]\<rparr>)
       newResponseWriter (sampleRequest (''{}'', None)))) = []"
proof -
  let ?a = "sampleApi 60 1 \<lparr>available = True, counts = [''7{}'' \<mapsto> 1]\<rparr>"
  let ?r = "sampleRequest (''{}'', None)"
  have h1: "Atoi (projectIdVar ?r) = Inr 7" by (simp add: Atoi_7)
  have h2: "IsValidProjectAndPublicKey sampleDeps 7
              (sentry_key (getSentryKeyAndSecret sampleDeps ?r))"
    by (simp add: anyProject_def)
  have h3: "snd (getRequestBody ?r) = None" by (simp add: getRequestBody_braces)
  have h4: "0 < sint (UrlCacheExpiration (cfg ?a))" by simp
  have h5: "status newResponseWriter = None" by (simp add: newResponseWriter_def)
  have k: "cacheKeyOf sampleDeps ?r = ''7{}''"
    by (simp add: cacheKeyOf_def getRequestBody_braces hashBody_def)
  have h6: "(2 :: int64) = fst (fst (cacheIncr sampleDeps (cacheKeyOf sampleDeps ?r)
             (if fst (cacheGet sampleDeps (cacheKeyOf sampleDeps ?r) (cache ?a)) = 0
              then cacheSet sampleDeps (cacheKeyOf sampleDeps ?r)
                     (seconds (UrlCacheExpiration (cfg ?a))) (cache ?a)
              else cache ?a)))"
    by (simp add: k storeGet_def storeIncrementAndGet_def)
  have f2: "FormatInt 2 = ''2''"
    by (simp add: FormatInt_def natDigits.simps char_of_def bit_Suc_0_iff)
  from C1_admission_decision [OF h1 h2 h3 h4 h5 h6] show ?thesis
    by (simp add: f2)
qed

text \<open>C2. The same project id and body, submitted \<open>N\<close> times one after the other
  within one window: the key has no entry when the first submission arrives, the store is
  reachable, every submission passes project validation, the dedup TTL is positive, and
  \<open>N\<close> is below \<open>2^63\<close>, so that the 64-bit count does not wrap. With \<open>T\<close> the
  maximum-uses threshold (a negative threshold counting as 0), the first \<open>min N T\<close>
  responses are tagged PROCESSED and their messages are put on the delivery queue in
  order; the remaining \<open>N - min N T\<close> are tagged IGNORED. When \<open>N > T\<close> exactly
  \<open>T\<close> submissions are admitted.\<close>

theorem C2_first_T_admitted:
  fixes a :: "Store Api"
  assumes "Atoi pstr = Inr pid"
      and "\<forall>r \<in> set rs. projectIdVar r = pstr \<and> getRequestBody r = (body, None)
             \<and> v pid (sentry_key (getSentryKeyAndSecret (storeDeps h p v) r))"
      and "0 < sint (UrlCacheExpiration (cfg a))"
      and "available (cache a)"
      and "counts (cache a) (pstr @ fst (h body)) = None"
      and "length rs < 2 ^ 63"
      and "T = nat (sint (MaxCacheUses (cfg a)))"
  shows "map statusTag (snd (submitAll (storeDeps h p v) a rs)) =
           replicate (min (length rs) T) (Some ''PROCESSED'')
           @ replicate (length rs - min (length rs) T) (Some ''IGNORED'')
       \<and> requestStorage (fst (submitAll (storeDeps h p v) a rs)) =
           requestStorage a @ map (messageOf pid) (take (min (length rs) T) rs)
       \<and> (T < length rs \<longrightarrow>
            length (filter (\<lambda>t. t = Some ''PROCESSED'')
              (map statusTag (snd (submitAll (storeDeps h p v) a rs)))) = T)"
proof -
  have c0: "countOf (cache a) (pstr @ fst (h body)) = of_nat 0"
    using assms(5) by (simp add: countOf_def)
  have len: "0 + length rs < 2 ^ 63" using assms(6) by simp
  note run = submitAll_store [where v = v and h = h and p = p, OF assms(1,2,3,4) c0 len]
  have st: "map statusTag (snd (submitAll (storeDeps h p v) a rs)) =
           replicate (min (length rs) T) (Some ''PROCESSED'')
           @ replicate (length rs - min (length rs) T) (Some ''IGNORED'')"
    using run by (simp add: assms(7))
  have q: "requestStorage (fst (submitAll (storeDeps h p v) a rs)) =
           requestStorage a @ map (messageOf pid) (take (min (length rs) T) rs)"
    using run by (simp add: assms(7) min_def)
  have "T < length rs \<longrightarrow>
            length (filter (\<lambda>t. t = Some ''PROCESSED'')
              (map statusTag (snd (submitAll (storeDeps h p v) a rs)))) = T"
    unfolding st by (simp add: min_def)
  with st q show ?thesis by simp
qed

theorem C2_first_T_admitted_witness:
  "map statusTag (snd (submitAll sampleDeps (sampleApi 60 2 emptyStore)
       [sampleRequest (''{}'', None), sampleRequest (''{}'', None), sampleRequest (''{}'', None)]))
     = [Some ''PROCESSED'', Some ''PROCESSED'', Some ''IGNORED'']
   \<and> length (requestStorage (fst (submitAll sampleDeps (sampleApi 60 2 emptyStore)
       [sampleRequest (''{}'', None), sampleRequest (''{}'', None), sampleRequest (''{}'', None)])))
     = 2"
proof -
  let ?r = "sampleRequest (''{}'', None)"
  let ?a = "sampleApi 60 2 emptyStore"
  have h1: "Atoi ''7'' = Inr 7" by (rule Atoi_7)
  have h2: "\<forall>r \<in> set [?r, ?r, ?r]. projectIdVar r = ''7'' \<and> getRequestBody r = (''{}'', None)
             \<and> anyProject 7 (sentry_key (getSentryKeyAndSecret (storeDeps hashBody parseValues anyProject) r))"
    by (simp add: getRequestBody_braces anyProject_def)
  have h3: "0 < sint (UrlCacheExpiration (cfg ?a))" by simp
  have h4: "available (cache ?a)" by (simp add: emptyStore_def)
  have h5: "counts (cache ?a) (''7'' @ fst (hashBody ''{}'')) = None" by (simp add: emptyStore_def)
  have h6: "length [?r, ?r, ?r] < 2 ^ 63" by simp
  have h7: "(2::nat) = nat (sint (MaxCacheUses (cfg ?a)))" by simp
  from C2_first_T_admitted [where v = anyProject and h = hashBody and p = parseValues,
      OF h1 h2 h3 h4 h5 h6 h7]
  show ?thesis by (simp add: sampleDeps_def numeral_2_eq_2)
qed

text \<open>C3, as the spec states it, fails: with threshold 0 and a positive TTL the first
  occurrence of a content in a window gets the count 1, which exceeds 0, and is tagged
  IGNORED; nothing is put on the delivery queue.\<close>

theorem C3_threshold_zero_counterexample:
  "MaxCacheUses (cfg (sampleApi 60 0 emptyStore)) = 0
   \<and> 0 < sint (UrlCacheExpiration (cfg (sampleApi 60 0 emptyStore)))
   \<and> counts (cache (sampleApi 60 0 emptyStore)) (''7'' @ fst (hashBody ''{}'')) = None
   \<and> statusTag (snd (apiHandler sampleDeps (sampleApi 60 0 emptyStore) newResponseWriter
         (sampleRequest (''{}'', None)))) = Some ''IGNORED''
   \<and> requestStorage (fst (apiHandler sampleDeps (sampleApi 60 0 emptyStore) newResponseWriter
         (sampleRequest (''{}'', None)))) = []"
proof -
  have s: "0 < sint (60 :: int64)" "available emptyStore" by (simp_all add: emptyStore_def)
  show ?thesis
    using sample_step(1,2) [OF getRequestBody_braces s, of hashBody parseValues 0]
    by (simp add: sampleDeps_def countOf_def emptyStore_def hashBody_def)
qed

text \<open>C3, amended. With threshold 0 (positive TTL, store reachable, no entry for the
  key when the window starts) every occurrence of the content within the window is
  ignored, the first one included, and nothing reaches the delivery queue.\<close>

theorem C3_threshold_zero_ignores_all:
  fixes a :: "Store Api"
  assumes "Atoi pstr = Inr pid"
      and "\<forall>r \<in> set rs. projectIdVar r = pstr \<and> getRequestBody r = (body, None)
             \<and> v pid (sentry_key (getSentryKeyAndSecret (storeDeps h p v) r))"
      and "0 < sint (UrlCacheExpiration (cfg a))"
      and "available (cache a)"
      and "counts (cache a) (pstr @ fst (h body)) = None"
      and "length rs < 2 ^ 63"
      and "MaxCacheUses (cfg a) = 0"
  shows "map statusTag (snd (submitAll (storeDeps h p v) a rs)) =
           replicate (length rs) (Some ''IGNORED'')
       \<and> requestStorage (fst (submitAll (storeDeps h p v) a rs)) = requestStorage a"
proof -
  have c0: "countOf (cache a) (pstr @ fst (h body)) = of_nat 0"
    using assms(5) by (simp add: countOf_def)
  have len: "0 + length rs < 2 ^ 63" using assms(6) by simp
  from submitAll_store [where v = v and h = h and p = p, OF assms(1,2,3,4) c0 len]
  show ?thesis by (simp add: assms(7))
qed

theorem C3_threshold_zero_ignores_all_witness:
  "map statusTag (snd (submitAll sampleDeps (sampleApi 60 0 emptyStore)
       [sampleRequest (''{}'', None), sampleRequest (''{}'', None)]))
     = [Some ''IGNORED'', Some ''IGNORED'']
   \<and> requestStorage (fst (submitAll sampleDeps (sampleApi 60 0 emptyStore)
       [sampleRequest (''{}'', None), sampleRequest (''{}'', None)])) = []"
proof -
  let ?r = "sampleRequest (''{}'', None)"
  let ?a = "sampleApi 60 0 emptyStore"
  have h1: "Atoi ''7'' = Inr 7" by (rule Atoi_7)
  have h2: "\<forall>r \<in> set [?r, ?r]. projectIdVar r = ''7'' \<and> getRequestBody r = (''{}'', None)
             \<and> anyProject 7 (sentry_key (getSentryKeyAndSecret (storeDeps hashBody parseValues anyProject) r))"
    by (simp add: getRequestBody_braces anyProject_def)
  have h3: "0 < sint (UrlCacheExpiration (cfg ?a))" by simp
  have h4: "available (cache ?a)" by (simp add: emptyStore_def)
  have h5: "counts (cache ?a) (''7'' @ fst (hashBody ''{}'')) = None" by (simp add: emptyStore_def)
  have h6: "length [?r, ?r] < 2 ^ 63" by simp
  have h7: "MaxCacheUses (cfg ?a) = 0" by simp
  from C3_threshold_zero_ignores_all [where v = anyProject and h = hashBody and p = parseValues,
      OF h1 h2 h3 h4 h5 h6 h7]
  show ?thesis by (simp add: sampleDeps_def numeral_2_eq_2)
qed

text \<open>C4, as the spec states it, fails for a negative threshold: with the dedup TTL at 0
  \<open>validateCache\<close> returns the count 0 without touching the cache, and \<open>0 > -1\<close>
  makes the handler tag a request that passed project validation IGNORED and keep it off
  the delivery queue.\<close>

theorem C4_dedup_disabled_counterexample:
  "\<not> 0 < sint (UrlCacheExpiration (cfg (sampleApi 0 (- 1) emptyStore)))
   \<and> Atoi (projectIdVar (sampleRequest (''{}'', None))) = Inr 7
   \<and> IsValidProjectAndPublicKey sampleDeps 7
        (sentry_key (getSentryKeyAndSecret sampleDeps (sampleRequest (''{}'', None))))
   \<and> statusTag (snd (apiHandler sampleDeps (sampleApi 0 (- 1) emptyStore) newResponseWriter
         (sampleRequest (''{}'', None)))) = Some ''IGNORED''
   \<and> requestStorage (fst (apiHandler sampleDeps (sampleApi 0 (- 1) emptyStore) newResponseWriter
         (sampleRequest (''{}'', None)))) = []"
proof -
  have off: "\<not> 0 < sint (0 :: int64) \<or> \<not> available emptyStore" by simp
  show ?thesis
    using sample_off [OF DecodeString_braces off, of hashBody parseValues "- 1"]
    by (simp add: sampleDeps_def Atoi_7 anyProject_def)
qed

text \<open>C4, amended. With the dedup TTL at 0 or below the cache is left as it was and the
  count is 0; every request that passes project validation and whose body is read
  without error is then admitted (tagged PROCESSED, counted as processed and put on the
  delivery queue), for every threshold that is not negative.\<close>

theorem C4_dedup_disabled_admits:
  assumes "Atoi (projectIdVar r) = Inr pid"
      and "IsValidProjectAndPublicKey d pid (sentry_key (getSentryKeyAndSecret d r))"
      and "snd (getRequestBody r) = None"
      and "\<not> 0 < sint (UrlCacheExpiration (cfg a))"
      and "0 \<le> sint (MaxCacheUses (cfg a))"
      and "status w = None"
  shows "cache (fst (apiHandler d a w r)) = cache a
       \<and> statusTag (snd (apiHandler d a w r)) = Some ''PROCESSED''
       \<and> header (snd (apiHandler d a w r)) ''X-CYCLOPS-CACHE-COUNT'' = Some ''0''
       \<and> status (snd (apiHandler d a w r)) = Some StatusNoContent
       \<and> processedItems (fst (apiHandler d a w r)) = processedItems a + 1
       \<and> ignoredItems (fst (apiHandler d a w r)) = ignoredItems a
       \<and> requestStorage (fst (apiHandler d a w r)) = requestStorage a @ [messageOf pid r]"
proof -
  have vc: "validateCache d a k = (0, a)" for k
    using assms(4) by (rule validateCache_off)
  have c: "0 = fst (validateCache d a (projectIdVar r @ fst (HashForGrouping d (fst (getRequestBody r)))))"
    by (simp add: vc)
  note out = apiHandler_outcome [OF assms(1,2,3) refl c]
  have nl: "\<not> sint (MaxCacheUses (cfg a)) < sint (0 :: int64)" using assms(5) by simp
  show ?thesis
    using out(2,3,4,6,7,8) [of w] out(5) [OF assms(6)] nl
    by (simp add: vc FormatInt_0)
qed

theorem C4_dedup_disabled_admits_witness:
  "statusTag (snd (apiHandler sampleDeps (sampleApi 0 5 emptyStore) newResponseWriter
         (sampleRequest (''{}'', None)))) = Some ''PROCESSED''
   \<and> requestStorage (fst (apiHandler sampleDeps (sampleApi 0 5 emptyStore) newResponseWriter
         (sampleRequest (''{}'', None)))) = [messageOf 7 (sampleRequest (''{}'', None))]
   \<and> cache (fst (apiHandler sampleDeps (sampleApi 0 5 emptyStore) newResponseWriter
         (sampleRequest (''{}'', None)))) = emptyStore"
proof -
  let ?r = "sampleRequest (''{}'', None)"
  let ?a = "sampleApi 0 5 emptyStore"
  have h1: "Atoi (projectIdVar ?r) = Inr 7" by (simp add: Atoi_7)
  have h2: "IsValidProjectAndPublicKey sampleDeps 7 (sentry_key (getSentryKeyAndSecret sampleDeps ?r))"
    by (simp add: anyProject_def)
  have h3: "snd (getRequestBody ?r) = None" by (simp add: getRequestBody_braces)
  have h4: "\<not> 0 < sint (UrlCacheExpiration (cfg ?a))" by simp
  have h5: "0 \<le> sint (MaxCacheUses (cfg ?a))" by simp
  have h6: "status newResponseWriter = None" by (simp add: newResponseWriter_def)
  from C4_dedup_disabled_admits [OF h1 h2 h3 h4 h5 h6] show ?thesis by simp
qed

text \<open>C5, as the spec states it, fails: when \<open>HashForGrouping\<close> fails the handler logs
  the error and goes on with the identifier returned beside it, so the cache key is the
  project id followed by that identifier and the count under that key is compared with
  the threshold as for any other event. With a grouping function that always fails
  (returning the empty identifier) and threshold 1, two different events of one project
  share the key: the first is admitted, the second is ignored and never delivered.\<close>

theorem C5_grouping_failure_counterexample:
  "snd (hashFails ''{a}'') \<noteq> None \<and> snd (hashFails ''{b}'') \<noteq> None
   \<and> map statusTag (snd (submitAll (storeDeps hashFails parseValues anyProject)
        (sampleApi 60 1 emptyStore)
        [sampleRequest (''{a}'', None), sampleRequest (''{b}'', None)]))
      = [Some ''PROCESSED'', Some ''IGNORED'']
   \<and> requestStorage (fst (submitAll (storeDeps hashFails parseValues anyProject)
        (sampleApi 60 1 emptyStore)
        [sampleRequest (''{a}'', None), sampleRequest (''{b}'', None)]))
      = [messageOf 7 (sampleRequest (''{a}'', None))]"
proof -
  let ?d = "storeDeps hashFails parseValues anyProject"
  let ?a = "sampleApi 60 1 emptyStore"
  let ?r1 = "sampleRequest (''{a}'', None)"
  let ?r2 = "sampleRequest (''{b}'', None)"
  let ?a1 = "fst (apiHandler ?d ?a newResponseWriter ?r1)"
  have s: "0 < sint (60 :: int64)" "available emptyStore" by (simp_all add: emptyStore_def)
  note first = sample_step [OF getRequestBody_plain [OF DecodeString_brace_a] s,
      of hashFails parseValues 1]
  have t1: "statusTag (snd (apiHandler ?d ?a newResponseWriter ?r1)) = Some ''PROCESSED''"
    using first(1) by (simp add: countOf_def emptyStore_def hashFails_def)
  have q1: "requestStorage ?a1 = [messageOf 7 ?r1]"
    using first(2) by (simp add: countOf_def emptyStore_def hashFails_def)
  have c1: "cache ?a1 = \<lparr>available = True, counts = [''7'' \<mapsto> 1]\<rparr>"
    using first(3) by (simp add: countOf_def emptyStore_def hashFails_def)
  have b: "getRequestBody ?r1 = (''{a}'', None)" "getRequestBody ?r2 = (''{b}'', None)"
    by (simp_all add: getRequestBody_plain [OF DecodeString_brace_a]
          getRequestBody_plain [OF DecodeString_brace_b])
  have h1: "Atoi (projectIdVar ?r1) = Inr 7" "Atoi (projectIdVar ?r2) = Inr 7"
    by (simp_all add: Atoi_7)
  have v1: "IsValidProjectAndPublicKey ?d 7 (sentry_key (getSentryKeyAndSecret ?d ?r1))"
    by (simp add: anyProject_def)
  have cfg1: "cfg ?a1 = cfg ?a"
    by (rule apiHandler_outcome(1) [OF h1(1) v1 _ refl refl]) (simp add: b)
  have h2: "anyProject 7 (sentry_key (getSentryKeyAndSecret ?d ?r2))" by (simp add: anyProject_def)
  have h3: "snd (getRequestBody ?r2) = None" by (simp add: b)
  have h4: "0 < sint (UrlCacheExpiration (cfg ?a1))" by (simp add: cfg1)
  have h5: "available (cache ?a1)" by (simp add: c1)
  have h6: "''7'' = projectIdVar ?r2 @ fst (hashFails (fst (getRequestBody ?r2)))"
    by (simp add: hashFails_def)
  have h7: "2 = countOf (cache ?a1) ''7'' + 1" by (simp add: c1 countOf_def)
  note second = apiHandler_store_step [where v = anyProject and h = hashFails and p = parseValues,
      OF h1(2) h2 h3 h4 h5 h6 h7]
  have t2: "statusTag (snd (apiHandler ?d ?a1 newResponseWriter ?r2)) = Some ''IGNORED''"
    using second(3) by (simp add: cfg1)
  have q2: "requestStorage (fst (apiHandler ?d ?a1 newResponseWriter ?r2)) = [messageOf 7 ?r1]"
    using second(4) by (simp add: cfg1 q1)
  show ?thesis by (simp add: Let_def t1 t2 q2 hashFails_def)
qed

text \<open>C5, amended. When \<open>HashForGrouping\<close> fails, the failure is logged and the request
  is not rejected (the answer is 204 No Content); the event then goes through the same
  count and threshold decision as every event, under the key made of the project id and
  the identifier returned with the error: it is tagged IGNORED and kept off the queue
  when that count exceeds the threshold, and tagged PROCESSED and queued otherwise.\<close>

theorem C5_grouping_failure_still_deduplicated:
  assumes "Atoi (projectIdVar r) = Inr pid"
      and "IsValidProjectAndPublicKey d pid (sentry_key (getSentryKeyAndSecret d r))"
      and "snd (getRequestBody r) = None"
      and "HashForGrouping d (fst (getRequestBody r)) = (ident, Some e)"
      and "status w = None"
      and "c = fst (validateCache d a (projectIdVar r @ ident))"
  shows "LogErrorf ''Unable to calculate a hash for the request: %s'' e
           \<in> set (logged (fst (apiHandler d a w r)))
       \<and> status (snd (apiHandler d a w r)) = Some StatusNoContent
       \<and> statusTag (snd (apiHandler d a w r)) =
            Some (if sint (MaxCacheUses (cfg a)) < sint c then ''IGNORED'' else ''PROCESSED'')
       \<and> requestStorage (fst (apiHandler d a w r)) =
            requestStorage a @
              (if sint (MaxCacheUses (cfg a)) < sint c then [] else [messageOf pid r])"
proof -
  have key: "projectIdVar r @ ident = projectIdVar r @ fst (HashForGrouping d (fst (getRequestBody r)))"
    by (simp add: assms(4))
  note out = apiHandler_outcome [OF assms(1,2,3) key assms(6)]
  have "LogErrorf ''Unable to calculate a hash for the request: %s'' e
           \<in> set (logged (fst (apiHandler d a w r)))"
    unfolding out(9) by (simp add: assms(4))
  with out(3,8) [of w] out(5) [OF assms(5)] show ?thesis by simp
qed

theorem C5_grouping_failure_still_deduplicated_witness:
  "LogErrorf ''Unable to calculate a hash for the request: %s'' (Err ''grouping failed'')
      \<in> set (logged (fst (apiHandler (storeDeps hashFails parseValues anyProject)
            (sampleApi 60 1 emptyStore) newResponseWriter (sampleRequest (''{a}'', None)))))
   \<and> statusTag (snd (apiHandler (storeDeps hashFails parseValues anyProject)
            (sampleApi 60 1 emptyStore) newResponseWriter (sampleRequest (''{a}'', None))))
      = Some ''PROCESSED''"
proof -
  let ?d = "storeDeps hashFails parseValues anyProject"
  let ?a = "sampleApi 60 1 emptyStore"
  let ?r = "sampleRequest (''{a}'', None)"
  have b: "getRequestBody ?r = (''{a}'', None)"
    by (rule getRequestBody_plain [OF DecodeString_brace_a])
  have h1: "Atoi (projectIdVar ?r) = Inr 7" by (simp add: Atoi_7)
  have h2: "IsValidProjectAndPublicKey ?d 7 (sentry_key (getSentryKeyAndSecret ?d ?r))"
    by (simp add: anyProject_def)
  have h3: "snd (getRequestBody ?r) = None" by (simp add: b)
  have h4: "HashForGrouping ?d (fst (getRequestBody ?r)) = ([], Some (Err ''grouping failed''))"
    by (simp add: hashFails_def)
  have h5: "status newResponseWriter = None" by (simp add: newResponseWriter_def)
  have h6: "1 = fst (validateCache ?d ?a (projectIdVar ?r @ []))"
    by (simp add: validateCache_store_available emptyStore_def countOf_def)
  from C5_grouping_failure_still_deduplicated [OF h1 h2 h3 h4 h5 h6] show ?thesis by simp
qed

text \<open>C6, as the spec states it, fails for a negative threshold: with the store
  unreachable \<open>Get\<close> and \<open>Incr\<close> return the zero count beside their error, the handler
  drops the errors and compares the count 0 with the threshold, and \<open>0 > -1\<close> makes
  it ignore the event.\<close>

theorem C6_store_unavailable_counterexample:
  "\<not> available \<lparr>available = False, counts = Map.empty\<rparr>
   \<and> snd (storeGet ''7{}'' \<lparr>available = False, counts = Map.empty\<rparr>) = Some StoreUnavailable
   \<and> snd (fst (storeIncrementAndGet ''7{}'' \<lparr>available = False, counts = Map.empty\<rparr>))
        = Some StoreUnavailable
   \<and> statusTag (snd (apiHandler sampleDeps
         (sampleApi 60 (- 1) \<lparr>available = False, counts = Map.empty\<rparr>) newResponseWriter
         (sampleRequest (''{}'', None)))) = Some ''IGNORED''
   \<and> requestStorage (fst (apiHandler sampleDeps
         (sampleApi 60 (- 1) \<lparr>available = False, counts = Map.empty\<rparr>) newResponseWriter
         (sampleRequest (''{}'', None)))) = []"
proof -
  have off: "\<not> 0 < sint (60 :: int64) \<or> \<not> available \<lparr>available = False, counts = Map.empty\<rparr>"
    by simp
  show ?thesis
    using sample_off [OF DecodeString_braces off, of hashBody parseValues "- 1"]
    by (simp add: sampleDeps_def storeGet_def storeIncrementAndGet_def)
qed

text \<open>C6, amended. When the store is unreachable, so that \<open>Get\<close> and \<open>Incr\<close> fail
  and return the zero count beside their error, a request that reaches the decision is
  admitted with the count 0 (tagged PROCESSED, counted as processed, put on the delivery
  queue), for every threshold that is not negative and every TTL.\<close>

theorem C6_store_unavailable_admits:
  fixes a :: "Store Api"
  assumes "Atoi (projectIdVar r) = Inr pid"
      and "v pid (sentry_key (getSentryKeyAndSecret (storeDeps h p v) r))"
      and "snd (getRequestBody r) = None"
      and "\<not> available (cache a)"
      and "0 \<le> sint (MaxCacheUses (cfg a))"
      and "status w = None"
      and "key = projectIdVar r @ fst (h (fst (getRequestBody r)))"
  shows "storeGet key (cache a) = (0, Some StoreUnavailable)
       \<and> fst (storeIncrementAndGet key (cache a)) = (0, Some StoreUnavailable)
       \<and> statusTag (snd (apiHandler (storeDeps h p v) a w r)) = Some ''PROCESSED''
       \<and> header (snd (apiHandler (storeDeps h p v) a w r)) ''X-CYCLOPS-CACHE-COUNT'' = Some ''0''
       \<and> status (snd (apiHandler (storeDeps h p v) a w r)) = Some StatusNoContent
       \<and> processedItems (fst (apiHandler (storeDeps h p v) a w r)) = processedItems a + 1
       \<and> ignoredItems (fst (apiHandler (storeDeps h p v) a w r)) = ignoredItems a
       \<and> requestStorage (fst (apiHandler (storeDeps h p v) a w r)) =
            requestStorage a @ [messageOf pid r]"
proof -
  let ?d = "storeDeps h p v"
  have vc: "validateCache ?d a k = (0, a)" for k
    using assms(4) by (rule validateCache_store_unavailable)
  have v: "IsValidProjectAndPublicKey ?d pid (sentry_key (getSentryKeyAndSecret ?d r))"
    using assms(2) by simp
  have c: "0 = fst (validateCache ?d a (projectIdVar r @ fst (HashForGrouping ?d (fst (getRequestBody r)))))"
    by (simp add: vc)
  note out = apiHandler_outcome [OF assms(1) v assms(3) refl c]
  have nl: "\<not> sint (MaxCacheUses (cfg a)) < sint (0 :: int64)" using assms(5) by simp
  have ops: "storeGet key (cache a) = (0, Some StoreUnavailable)"
    "fst (storeIncrementAndGet key (cache a)) = (0, Some StoreUnavailable)"
    using assms(4) by (simp_all add: storeGet_def storeIncrementAndGet_def)
  show ?thesis
    using out(3,4,6,7,8) [of w] out(5) [OF assms(6)] nl ops
    by (simp add: FormatInt_0)
qed

theorem C6_store_unavailable_admits_witness:
  "statusTag (snd (apiHandler sampleDeps
         (sampleApi 60 0 \<lparr>available = False, counts = Map.empty\<rparr>) newResponseWriter
         (sampleRequest (''{}'', None)))) = Some ''PROCESSED''
   \<and> requestStorage (fst (apiHandler sampleDeps
         (sampleApi 60 0 \<lparr>available = False, counts = Map.empty\<rparr>) newResponseWriter
         (sampleRequest (''{}'', None)))) = [messageOf 7 (sampleRequest (''{}'', None))]"
proof -
  let ?r = "sampleRequest (''{}'', None)"
  let ?a = "sampleApi 60 0 \<lparr>available = False, counts = Map.empty\<rparr>"
  have h1: "Atoi (projectIdVar ?r) = Inr 7" by (simp add: Atoi_7)
  have h2: "anyProject 7 (sentry_key (getSentryKeyAndSecret (storeDeps hashBody parseValues anyProject) ?r))"
    by (simp add: anyProject_def)
  have h3: "snd (getRequestBody ?r) = None" by (simp add: getRequestBody_braces)
  have h4: "\<not> available (cache ?a)" by simp
  have h5: "0 \<le> sint (MaxCacheUses (cfg ?a))" by simp
  have h6: "status newResponseWriter = None" by (simp add: newResponseWriter_def)
  from C6_store_unavailable_admits [where v = anyProject and h = hashBody and p = parseValues,
      OF h1 h2 h3 h4 h5 h6 refl]
  show ?thesis by (simp add: sampleDeps_def)
qed

text \<open>C7, as the spec states it, fails in its last part: a plaintext body that is itself
  valid base64 is decoded too. The plaintext \<open>abcd\<close> is read as the three bytes
  \<open>69 B7 1D\<close>, while its encoding \<open>YWJjZA==\<close> is read as \<open>abcd\<close>; with a grouping
  function without collisions the two submissions of the same content get different
  cache keys.\<close>

theorem C7_same_cache_key_counterexample:
  "EncodeToString ''abcd'' = ''YWJjZA==''
   \<and> getRequestBody (sampleRequest (''YWJjZA=='', None)) = (''abcd'', None)
   \<and> getRequestBody (sampleRequest (''abcd'', None)) = ([CHR ''i'', CHR 0xB7, CHR 0x1D], None)
   \<and> cacheKeyOf sampleDeps (sampleRequest (''YWJjZA=='', None))
       \<noteq> cacheKeyOf sampleDeps (sampleRequest (''abcd'', None))"
proof -
  have b: "Body (sampleRequest (EncodeToString ''abcd'', None)) = (EncodeToString ''abcd'', None)"
    by (simp add: sampleRequest_def)
  have e: "getRequestBody (sampleRequest (''YWJjZA=='', None)) = (''abcd'', None)"
    using getRequestBody_encoded [OF b] by (simp only: EncodeToString_abcd)
  have k: "cacheKeyOf sampleDeps (sampleRequest (''YWJjZA=='', None))
       \<noteq> cacheKeyOf sampleDeps (sampleRequest (''abcd'', None))"
    by (simp add: e getRequestBody_abcd cacheKeyOf_def hashBody_def)
  show ?thesis
    using EncodeToString_abcd e getRequestBody_abcd k by blast
qed

text \<open>C7, amended. A body that the decoder accepts is replaced by its decoding before
  hashing; a body that the decoder rejects is used as it is, without an error. So a
  base64-encoded submission and a plaintext submission of the same content are read as
  the same bytes and get the same cache key whenever the plaintext is not itself a
  valid base64 string (as the JSON text of the spec's example is not).\<close>

theorem C7_body_handling:
  assumes "Body r1 = (EncodeToString plain, None)"
      and "Body r2 = (plain, None)"
      and "projectIdVar r1 = projectIdVar r2"
      and "\<not> validStdBase64 plain"
      and "Body r = (raw, None)"
  shows "getRequestBody r =
           ((case DecodeString raw of Inr dec \<Rightarrow> dec | Inl e \<Rightarrow> raw), None)
       \<and> getRequestBody r1 = (plain, None)
       \<and> getRequestBody r2 = (plain, None)
       \<and> cacheKeyOf d r1 = cacheKeyOf d r2"
proof -
  have e1: "getRequestBody r1 = (plain, None)"
    using assms(1) by (rule getRequestBody_encoded)
  have e2: "getRequestBody r2 = (plain, None)"
    using assms(2,4) by (rule getRequestBody_invalid)
  have "cacheKeyOf d r1 = cacheKeyOf d r2"
    by (simp add: cacheKeyOf_def e1 e2 assms(3))
  with e1 e2 getRequestBody_cases [OF assms(5)] show ?thesis by simp
qed

theorem C7_body_handling_witness:
  "getRequestBody (sampleRequest (''eyJhIjoxfQ=='', None))
     = ([CHR ''{'', CHR 0x22, CHR ''a'', CHR 0x22, CHR '':'', CHR ''1'', CHR ''}''], None)
   \<and> getRequestBody
       (sampleRequest ([CHR ''{'', CHR 0x22, CHR ''a'', CHR 0x22, CHR '':'', CHR ''1'', CHR ''}''], None))
     = ([CHR ''{'', CHR 0x22, CHR ''a'', CHR 0x22, CHR '':'', CHR ''1'', CHR ''}''], None)
   \<and> cacheKeyOf sampleDeps (sampleRequest (''eyJhIjoxfQ=='', None))
     = cacheKeyOf sampleDeps
         (sampleRequest ([CHR ''{'', CHR 0x22, CHR ''a'', CHR 0x22, CHR '':'', CHR ''1'', CHR ''}''], None))"
proof -
  let ?json = "[CHR ''{'', CHR 0x22, CHR ''a'', CHR 0x22, CHR '':'', CHR ''1'', CHR ''}'']"
  have h1: "Body (sampleRequest (''eyJhIjoxfQ=='', None)) = (EncodeToString ?json, None)"
    by (simp only: EncodeToString_json) (simp add: sampleRequest_def)
  have h2: "Body (sampleRequest (?json, None)) = (?json, None)"
    by (simp add: sampleRequest_def)
  have h3: "projectIdVar (sampleRequest (''eyJhIjoxfQ=='', None)) = projectIdVar (sampleRequest (?json, None))"
    by simp
  have h4: "\<not> validStdBase64 ?json"
    by (simp add: validStdBase64_def wellPadded_def isNewline_def)
  from C7_body_handling [OF h1 h2 h3 h4 h2, of sampleDeps] show ?thesis by blast
qed

text \<open>C8, as the spec states it, fails for the secret: \<open>getSentryKeyAndSecret\<close> reads
  only \<open>sentry_key\<close> from the query. A request whose query carries
  \<open>sentry_secret=s3cret\<close> and that has no \<open>X-Sentry-Auth\<close> header resolves to the
  empty secret.\<close>

theorem C8_auth_resolution_counterexample:
  "ValuesGet (URLQuery ((sampleRequest ([], None))\<lparr>URLQuery := [''sentry_secret'' \<mapsto> [''s3cret'']]\<rparr>))
      ''sentry_secret'' = ''s3cret''
   \<and> ParseList sampleDeps
        (Header ((sampleRequest ([], None))\<lparr>URLQuery := [''sentry_secret'' \<mapsto> [''s3cret'']]\<rparr>))
        ''X-Sentry-Auth'' = []
   \<and> sentry_secret (getSentryKeyAndSecret sampleDeps
        ((sampleRequest ([], None))\<lparr>URLQuery := [''sentry_secret'' \<mapsto> [''s3cret'']]\<rparr>)) = []"
  by (simp add: getSentryKeyAndSecret_def ValuesGet_def sampleRequest_def parseValues_def)

text \<open>C8, amended. For every request the key is first read from the query parameter
  \<open>sentry_key\<close>, and the secret starts empty (no query parameter is read for it). Both
  are then overlaid by the \<open>field=value\<close> entries of the \<open>X-Sentry-Auth\<close> header
  list, field by field: \<open>sentry_key\<close> and \<open>sentry_secret\<close> are overridden
  independently, and the last entry of a repeated field wins.\<close>

theorem C8_auth_resolution:
  "getSentryKeyAndSecret d r =
     \<lparr>sentry_key =
        (case headerField ''sentry_key'' (ParseList d (Header r) ''X-Sentry-Auth'') of
           None \<Rightarrow> ValuesGet (URLQuery r) ''sentry_key''
         | Some k \<Rightarrow> k),
      sentry_secret =
        (case headerField ''sentry_secret'' (ParseList d (Header r) ''X-Sentry-Auth'') of
           None \<Rightarrow> []
         | Some s \<Rightarrow> s)\<rparr>"
  unfolding getSentryKeyAndSecret_def by (simp only: foldl_authStep XSentryAuth.simps)

text \<open>C9. \<open>K\<close> callers of \<open>validateCache\<close> on one key, their cache operations
  interleaved in any order, on the store of the spec (reachable, no entry for the key
  when the epoch starts, \<open>K\<close> below \<open>2^63\<close>): once all have returned, the counts
  returned are, as a multiset, exactly \<open>1, \<dots>, K\<close>; no count is returned twice, and no
  two callers incremented from the same pre-increment value.\<close>

theorem C9_concurrent_increments:
  assumes "(interleave (storeDeps h p v) url ttl)\<^sup>*\<^sup>* (replicate K AtGet, s) (ps, s')"
      and "available s"
      and "counts s url = None"
      and "\<forall>q \<in> set ps. isDone q"
      and "K < 2 ^ 63"
  shows "length (returnedCounts ps) = K
       \<and> mset (map sint (returnedCounts ps)) = mset (map int [1..<Suc K])
       \<and> distinct (returnedCounts ps)
       \<and> distinct (map (\<lambda>n. n - 1) (returnedCounts ps))"
proof -
  have r0: "returnedCounts (replicate K AtGet) = []"
    by (induction K) (simp_all add: returnedCounts_def)
  have init: "storeInv url (replicate K AtGet, s)"
    using assms(2,3) by (simp add: storeInv_def Let_def r0 countOf_def firstCounts_def)
  have inv: "storeInv url (ps, s')"
    using storeInv_reachable [OF assms(1) init] .
  have "length ps = K"
    using interleave_length [OF assms(1)] by simp
  then have len: "length (returnedCounts ps) = K"
    using returnedCounts_all_done [OF assms(4)] by simp
  have ms: "mset (returnedCounts ps) = mset (firstCounts K)"
    using inv by (simp add: storeInv_def Let_def len)
  have "mset (map sint (returnedCounts ps)) = image_mset sint (mset (returnedCounts ps))"
    by simp
  also have "\<dots> = mset (map sint (firstCounts K))" by (simp only: ms mset_map)
  also have "\<dots> = mset (map int [1..<Suc K])" by (simp only: sint_firstCounts [OF assms(5)])
  finally have m: "mset (map sint (returnedCounts ps)) = mset (map int [1..<Suc K])" .
  have d: "distinct (returnedCounts ps)"
    using mset_eq_imp_distinct_iff [OF ms] distinct_firstCounts [OF assms(5)] by simp
  have "inj_on (\<lambda>n :: int64. n - 1) (set (returnedCounts ps))" by (simp add: inj_on_def)
  with d have d1: "distinct (map (\<lambda>n. n - 1) (returnedCounts ps))" by (simp add: distinct_map)
  from len m d d1 show ?thesis by simp
qed

theorem C9_concurrent_increments_witness:
  "(interleave sampleDeps ''k'' 60)\<^sup>*\<^sup>* ([AtGet, AtGet], emptyStore)
      ([Done 2, Done 1], \<lparr>available = True, counts = [''k'' \<mapsto> 2]\<rparr>)
   \<and> mset (map sint (returnedCounts [Done 2, Done 1])) = {#1, 2#}
   \<and> distinct (returnedCounts [Done 2, Done 1])"
proof -
  let ?d = "storeDeps hashBody parseValues anyProject"
  let ?s0 = "\<lparr>available = True, counts = Map.empty\<rparr>"
  let ?s1 = "\<lparr>available = True, counts = [''k'' \<mapsto> 0]\<rparr>"
  let ?s2 = "\<lparr>available = True, counts = [''k'' \<mapsto> 1]\<rparr>"
  let ?s3 = "\<lparr>available = True, counts = [''k'' \<mapsto> 2]\<rparr>"
  have t1: "interleave ?d ''k'' 60 ([AtGet, AtGet], ?s0) ([AtSet 0, AtGet], ?s0)"
    using interleave.step [of 0 "[AtGet, AtGet]" ?d "''k''" 60 ?s0 "AtSet 0" ?s0]
    by (simp add: storeGet_def)
  have t2: "interleave ?d ''k'' 60 ([AtSet 0, AtGet], ?s0) ([AtSet 0, AtSet 0], ?s0)"
    using interleave.step [of 1 "[AtSet 0, AtGet]" ?d "''k''" 60 ?s0 "AtSet 0" ?s0]
    by (simp add: storeGet_def)
  have t3: "interleave ?d ''k'' 60 ([AtSet 0, AtSet 0], ?s0) ([AtIncr, AtSet 0], ?s1)"
    using interleave.step [of 0 "[AtSet 0, AtSet 0]" ?d "''k''" 60 ?s0 AtIncr ?s1]
    by (simp add: storeSetIfAbsent_def)
  have t4: "interleave ?d ''k'' 60 ([AtIncr, AtSet 0], ?s1) ([AtIncr, AtIncr], ?s1)"
    using interleave.step [of 1 "[AtIncr, AtSet 0]" ?d "''k''" 60 ?s1 AtIncr ?s1]
    by (simp add: storeSetIfAbsent_def)
  have t5: "interleave ?d ''k'' 60 ([AtIncr, AtIncr], ?s1) ([AtIncr, Done 1], ?s2)"
    using interleave.step [of 1 "[AtIncr, AtIncr]" ?d "''k''" 60 ?s1 "Done 1" ?s2]
    by (simp add: storeIncrementAndGet_def)
  have t6: "interleave ?d ''k'' 60 ([AtIncr, Done 1], ?s2) ([Done 2, Done 1], ?s3)"
    using interleave.step [of 0 "[AtIncr, Done 1]" ?d "''k''" 60 ?s2 "Done 2" ?s3]
    by (simp add: storeIncrementAndGet_def)
  have run: "(interleave ?d ''k'' 60)\<^sup>*\<^sup>* (replicate 2 AtGet, ?s0) ([Done 2, Done 1], ?s3)"
  proof -
    have "(interleave ?d ''k'' 60)\<^sup>*\<^sup>* ([AtGet, AtGet], ?s0) ([AtGet, AtGet], ?s0)"
      by (rule rtranclp.rtrancl_refl)
    from this t1 have "(interleave ?d ''k'' 60)\<^sup>*\<^sup>* ([AtGet, AtGet], ?s0) ([AtSet 0, AtGet], ?s0)"
      by (rule rtranclp.rtrancl_into_rtrancl)
    from this t2 have "(interleave ?d ''k'' 60)\<^sup>*\<^sup>* ([AtGet, AtGet], ?s0) ([AtSet 0, AtSet 0], ?s0)"
      by (rule rtranclp.rtrancl_into_rtrancl)
    from this t3 have "(interleave ?d ''k'' 60)\<^sup>*\<^sup>* ([AtGet, AtGet], ?s0) ([AtIncr, AtSet 0], ?s1)"
      by (rule rtranclp.rtrancl_into_rtrancl)
    from this t4 have "(interleave ?d ''k'' 60)\<^sup>*\<^sup>* ([AtGet, AtGet], ?s0) ([AtIncr, AtIncr], ?s1)"
      by (rule rtranclp.rtrancl_into_rtrancl)
    from this t5 have "(interleave ?d ''k'' 60)\<^sup>*\<^sup>* ([AtGet, AtGet], ?s0) ([AtIncr, Done 1], ?s2)"
      by (rule rtranclp.rtrancl_into_rtrancl)
    from this t6 have "(interleave ?d ''k'' 60)\<^sup>*\<^sup>* ([AtGet, AtGet], ?s0) ([Done 2, Done 1], ?s3)"
      by (rule rtranclp.rtrancl_into_rtrancl)
    then show ?thesis by (simp add: numeral_2_eq_2)
  qed
  have h2: "available ?s0" by simp
  have h3: "counts ?s0 ''k'' = None" by simp
  have h4: "\<forall>q \<in> set [Done 2, Done 1]. isDone q" by simp
  have h5: "(2::nat) < 2 ^ 63" by simp
  from C9_concurrent_increments [OF run h2 h3 h4 h5] run
  show ?thesis
    by (simp add: sampleDeps_def emptyStore_def numeral_2_eq_2)
qed

text \<open>C10. \<open>getRequestBody\<close>, on a body that was read without error, returns the
  base64 decoding of the body when the body is a syntactically valid standard base64
  string (length a multiple of four, alphabet characters, at most two trailing \<open>=\<close>;
  CR and LF are set aside, as \<open>StdEncoding\<close> does), and the body unchanged otherwise.
  The plaintext \<open>abcd\<close> is such a string: it is read as the three bytes \<open>69 B7 1D\<close>,
  and these, not the four bytes the client sent, are what is hashed into the cache key
  and what is delivered.\<close>

theorem C10_body_decoded_iff_valid_base64:
  assumes "Body r = (raw, None)"
  shows "(validStdBase64 raw \<longrightarrow>
            (\<exists>dec. DecodeString raw = Inr dec \<and> getRequestBody r = (dec, None)))
       \<and> (\<not> validStdBase64 raw \<longrightarrow> getRequestBody r = (raw, None))
       \<and> validStdBase64 ''abcd''
       \<and> getRequestBody (sampleRequest (''abcd'', None)) = ([CHR ''i'', CHR 0xB7, CHR 0x1D], None)
       \<and> [CHR ''i'', CHR 0xB7, CHR 0x1D] \<noteq> ''abcd''
       \<and> map (\<lambda>m. RequestBody (snd m))
            (requestStorage (fst (apiHandler sampleDeps (sampleApi 60 1 emptyStore)
               newResponseWriter (sampleRequest (''abcd'', None)))))
           = [[CHR ''i'', CHR 0xB7, CHR 0x1D]]
       \<and> counts (cache (fst (apiHandler sampleDeps (sampleApi 60 1 emptyStore)
               newResponseWriter (sampleRequest (''abcd'', None)))))
             (''7'' @ fst (hashBody [CHR ''i'', CHR 0xB7, CHR 0x1D])) = Some 1
       \<and> counts (cache (fst (apiHandler sampleDeps (sampleApi 60 1 emptyStore)
               newResponseWriter (sampleRequest (''abcd'', None)))))
             (''7'' @ fst (hashBody ''abcd'')) = None"
proof -
  have valid: "validStdBase64 raw \<longrightarrow>
            (\<exists>dec. DecodeString raw = Inr dec \<and> getRequestBody r = (dec, None))"
  proof
    assume "validStdBase64 raw"
    then obtain dec where "DecodeString raw = Inr dec"
      using DecodeString_ok_iff by blast
    then show "\<exists>dec. DecodeString raw = Inr dec \<and> getRequestBody r = (dec, None)"
      by (simp add: getRequestBody_cases [OF assms])
  qed
  have invalid: "\<not> validStdBase64 raw \<longrightarrow> getRequestBody r = (raw, None)"
  proof
    assume "\<not> validStdBase64 raw"
    then have "\<nexists>bs. DecodeString raw = Inr bs" using DecodeString_ok_iff by blast
    then show "getRequestBody r = (raw, None)"
      by (cases "DecodeString raw") (simp_all add: getRequestBody_cases [OF assms])
  qed
  have s: "0 < sint (60 :: int64)" "available emptyStore" by (simp_all add: emptyStore_def)
  note step = sample_step [OF getRequestBody_abcd s, of hashBody parseValues 1]
  have q: "map (\<lambda>m. RequestBody (snd m))
            (requestStorage (fst (apiHandler sampleDeps (sampleApi 60 1 emptyStore)
               newResponseWriter (sampleRequest (''abcd'', None)))))
           = [[CHR ''i'', CHR 0xB7, CHR 0x1D]]"
    using step(2)
    by (simp add: sampleDeps_def countOf_def emptyStore_def messageOf_def getRequestBody_abcd)
  have k: "counts (cache (fst (apiHandler sampleDeps (sampleApi 60 1 emptyStore)
               newResponseWriter (sampleRequest (''abcd'', None)))))
             (''7'' @ fst (hashBody [CHR ''i'', CHR 0xB7, CHR 0x1D])) = Some 1"
     "counts (cache (fst (apiHandler sampleDeps (sampleApi 60 1 emptyStore)
               newResponseWriter (sampleRequest (''abcd'', None)))))
             (''7'' @ fst (hashBody ''abcd'')) = None"
    using step(3)
    by (simp_all add: sampleDeps_def countOf_def emptyStore_def hashBody_def)
  show ?thesis
    using valid invalid valid_abcd getRequestBody_abcd q k by simp
qed

theorem C10_body_decoded_iff_valid_base64_witness:
  "validStdBase64 ''eyJhIjoxfQ==''
   \<and> getRequestBody (sampleRequest (''eyJhIjoxfQ=='', None))
       = ([CHR ''{'', CHR 0x22, CHR ''a'', CHR 0x22, CHR '':'', CHR ''1'', CHR ''}''], None)
   \<and> \<not> validStdBase64 ''{}''
   \<and> getRequestBody (sampleRequest (''{}'', None)) = (''{}'', None)"
proof -
  let ?json = "[CHR ''{'', CHR 0x22, CHR ''a'', CHR 0x22, CHR '':'', CHR ''1'', CHR ''}'']"
  have b1: "Body (sampleRequest (''eyJhIjoxfQ=='', None)) = (''eyJhIjoxfQ=='', None)"
    by (simp add: sampleRequest_def)
  have b2: "Body (sampleRequest (''{}'', None)) = (''{}'', None)"
    by (simp add: sampleRequest_def)
  have dec: "DecodeString ''eyJhIjoxfQ=='' = Inr ?json"
    using DecodeString_EncodeToString [of ?json] by (simp only: EncodeToString_json)
  have v1: "validStdBase64 ''eyJhIjoxfQ==''"
    using DecodeString_ok_iff [of "''eyJhIjoxfQ==''"] dec by simp
  have v2: "\<not> validStdBase64 ''{}''"
    using DecodeString_ok_iff [of "''{}''"] by (simp add: DecodeString_braces)
  from C10_body_decoded_iff_valid_base64 [OF b1] C10_body_decoded_iff_valid_base64 [OF b2]
  show ?thesis using v1 v2 dec by auto
qed

end
